theory Spec2Isabelle
  imports Main "HOL-Library.Word"
begin

section \<open>Errors\<close>

text \<open>
  The exceptions the modelled code throws, as values. The free-text message of an
  exception is not kept; a payload is kept where the code gives one a caller reads
  (the group name of \<open>UndefinedGroupError\<close>, the cycle of \<open>CyclicInteractionError\<close>).
  \<open>OutOfRange\<close> is \<open>std::out_of_range\<close> (thrown by \<open>std::string::substr\<close>),
  \<open>FilesystemError\<close> is \<open>std::filesystem::filesystem_error\<close>, and
  \<open>NullDereference\<close> stands for a call through a null \<open>shared_ptr\<close>.
\<close>

datatype EdgeType =
  hardcoded | masterFlag | master | masterlistRequirement | userRequirement |
  masterlistLoadAfter | userLoadAfter | group | overlap | tieBreak

datatype CycleEdgeType = LoadAfter | PluginEdge EdgeType

record Vertex =
  vertexName :: string
  typeOfEdgeToNextVertex :: CycleEdgeType

datatype error =
  FileAccessError
| ConditionSyntaxError
| UndefinedGroupError string
| CyclicInteractionError "Vertex list"
| OutOfRange
| FilesystemError
| NullDereference

section \<open>Metadata\<close>

record File =
  fileName :: string
  fileDisplay :: string
  fileCondition :: string

record Message =
  messageType :: nat
  messageContent :: string
  messageCondition :: string

record Tag =
  tagName :: string
  tagIsAddition :: bool
  tagCondition :: string

record PluginCleaningData =
  cleaningCRC :: "32 word"
  itmCount :: nat
  deletedReferenceCount :: nat
  deletedNavmeshCount :: nat
  cleaningUtility :: string

record PluginMetadata =
  metadataName :: string
  metadataEnabled :: bool
  metadataLocations :: "string list"
  metadataGroup :: "string option"
  loadAfterFiles :: "File list"
  requirements :: "File list"
  incompatibilities :: "File list"
  metadataMessages :: "Message list"
  metadataTags :: "Tag list"
  dirtyInfo :: "PluginCleaningData list"
  cleanInfo :: "PluginCleaningData list"

text \<open>
  \<open>PluginMetadata(name)\<close>: the constructor used by \<open>evaluateAll\<close>; every collection
  starts empty, no group is set and the entry is enabled. A \<open>std::set\<close> is modelled by
  the list of its elements in iteration order.
\<close>

definition newPluginMetadata :: "string \<Rightarrow> PluginMetadata" where
  "newPluginMetadata n =
     \<lparr> metadataName = n, metadataEnabled = True, metadataLocations = [],
       metadataGroup = None, loadAfterFiles = [], requirements = [],
       incompatibilities = [], metadataMessages = [], metadataTags = [], dirtyInfo = [],
       cleanInfo = [] \<rparr>"

record Group =
  groupName :: string
  afterGroups :: "string list"

text \<open>
  The members of \<open>MetadataList\<close> (metadata_list.h). Member names are written without
  the trailing underscore of the source (\<open>plugins\<close> for \<open>plugins_\<close>), here and below.
\<close>

record MetadataList =
  groups :: "Group list"
  bashTags :: "string list"
  plugins :: "PluginMetadata list"
  regexPlugins :: "PluginMetadata list"
  messages :: "Message list"
  unevaluatedPlugins :: "PluginMetadata list"
  unevaluatedRegexPlugins :: "PluginMetadata list"
  unevaluatedMessages :: "Message list"

text \<open>A default-constructed \<open>MetadataList\<close> (and \<open>Masterlist\<close>): every member empty.\<close>

definition emptyMetadataList :: MetadataList where
  "emptyMetadataList =
     \<lparr> groups = [], bashTags = [], plugins = [], regexPlugins = [], messages = [],
       unevaluatedPlugins = [], unevaluatedRegexPlugins = [],
       unevaluatedMessages = [] \<rparr>"

section \<open>File names and paths\<close>

text \<open>
  \<open>boost::locale::to_lower\<close>, on the ASCII letters (plugin file names are compared and
  keyed case-insensitively throughout).
\<close>

definition to_lower_char :: "char \<Rightarrow> char" where
  "to_lower_char c =
     (case map_of (zip ''ABCDEFGHIJKLMNOPQRSTUVWXYZ'' ''abcdefghijklmnopqrstuvwxyz'') c of
        Some d \<Rightarrow> d | None \<Rightarrow> c)"

definition to_lower :: "string \<Rightarrow> string" where
  "to_lower s = map to_lower_char s"

text \<open>
  A \<open>std::filesystem::path\<close> is modelled by the sequence of components its iteration
  yields (generic format, \<open>/\<close> the separator): a leading separator gives the root
  directory \<open>/\<close>, runs of separators count once, and a trailing separator after a file
  name gives a final empty component.
\<close>

type_synonym path = "string list"

fun splitSeparators :: "string \<Rightarrow> string \<Rightarrow> string list" where
  "splitSeparators cur [] = [rev cur]"
| "splitSeparators cur (c # cs) =
     (if c = CHR ''/'' then rev cur # splitSeparators [] cs else splitSeparators (c # cur) cs)"

definition u8path :: "string \<Rightarrow> path" where
  "u8path s =
     (if s = [] then []
      else (let names = filter (\<lambda>n. n \<noteq> []) (splitSeparators [] s) in
        (if hd s = CHR ''/'' then [''/''] else []) @ names @
        (if last s = CHR ''/'' \<and> names \<noteq> [] then [[]] else [])))"

text \<open>
  \<open>path::filename()\<close>: the last component, empty for an empty path and for the root
  directory. \<open>temp /= component\<close>: an absolute component replaces the path, any other
  is appended.
\<close>

definition filename :: "path \<Rightarrow> string" where
  "filename p = (if p = [] then [] else if last p = ''/'' then [] else last p)"

definition pathAppend :: "path \<Rightarrow> string \<Rightarrow> path" where
  "pathAppend temp component = (if component = ''/'' then [component] else temp @ [component])"

section \<open>Game cache\<close>

datatype GameType = tes4 | tes5 | fo3 | fonv

record Plugin =
  pluginName :: string
  pluginVersion :: "string option"
  pluginCRC :: "32 word option"

text \<open>
  The maps of \<open>GameCache\<close> that the modelled code reads and writes (game_cache.cpp).
  \<open>std::map::insert\<close> and \<open>std::unordered_map::insert\<close> keep an existing entry.
\<close>

record GameCache =
  conditions :: "string \<rightharpoonup> bool"
  crcs :: "string \<rightharpoonup> 32 word"
  cachedPlugins :: "string \<rightharpoonup> Plugin"

definition CacheCondition :: "GameCache \<Rightarrow> string \<Rightarrow> bool \<Rightarrow> GameCache" where
  "CacheCondition gc condition result =
     (case conditions gc condition of
        Some _ \<Rightarrow> gc
      | None \<Rightarrow> gc\<lparr> conditions := (conditions gc)(condition \<mapsto> result) \<rparr>)"

definition GetCachedCondition :: "GameCache \<Rightarrow> string \<Rightarrow> bool \<times> bool" where
  "GetCachedCondition gc condition =
     (case conditions gc condition of Some b \<Rightarrow> (b, True) | None \<Rightarrow> (False, False))"

definition GetCachedCrc :: "GameCache \<Rightarrow> string \<Rightarrow> 32 word" where
  "GetCachedCrc gc file = (case crcs gc (to_lower file) of Some crc \<Rightarrow> crc | None \<Rightarrow> 0)"

definition CacheCrc :: "GameCache \<Rightarrow> string \<Rightarrow> 32 word \<Rightarrow> GameCache" where
  "CacheCrc gc file crc =
     (case crcs gc (to_lower file) of
        Some _ \<Rightarrow> gc
      | None \<Rightarrow> gc\<lparr> crcs := (crcs gc)(to_lower file \<mapsto> crc) \<rparr>)"

definition GetPlugin :: "GameCache \<Rightarrow> string \<Rightarrow> Plugin option" where
  "GetPlugin gc name = cachedPlugins gc (to_lower name)"

section \<open>Condition evaluator\<close>

text \<open>
  What the evaluator reads outside the modelled code. A file is named either relative to
  the game's data path (\<open>dataPath_ / u8path(name)\<close>) or is the host executable
  (\<open>std::filesystem::absolute("LOOT.exe")\<close>). \<open>'v\<close> is the type of \<open>Version\<close> values,
  compared with \<open>=\<close>, \<open><\<close> and \<open>\<le>\<close>.
\<close>

datatype location = DataFile string | HostExecutable

record 'v environment =
  fileSystemExists :: "location \<Rightarrow> bool"
  hasPluginFileExtension :: "string \<Rightarrow> GameType \<Rightarrow> bool"
  GetCrc32 :: "location \<Rightarrow> 32 word"
  versionOfString :: "string \<Rightarrow> 'v"
  versionOfFile :: "location \<Rightarrow> 'v"
  pluginIsValid :: "GameType \<Rightarrow> location \<Rightarrow> bool"
  pluginHeaderVersion :: "location \<Rightarrow> string option"
  IsRegexPlugin :: "string \<Rightarrow> bool"

text \<open>The load order reader, as far as the modelled code asks it.\<close>

record LoadOrderHandler =
  implicitlyActivePlugins :: "string list"
  loadOrder :: "string list"

text \<open>
  The evaluator holds two shared handles, either of which may be null. The cache is
  shared and mutable: an operation that writes to it returns the evaluator with the
  updated cache.
\<close>

record ConditionEvaluator =
  gameType :: GameType
  gameCache :: "GameCache option"
  loadOrderHandler :: "LoadOrderHandler option"

definition shouldParseOnly :: "ConditionEvaluator \<Rightarrow> bool" where
  "shouldParseOnly ev = (gameCache ev = None \<or> loadOrderHandler ev = None)"

fun validatePathLoop :: "path \<Rightarrow> string list \<Rightarrow> error + unit" where
  "validatePathLoop temp [] = Inr ()"
| "validatePathLoop temp (component # rest) =
     (if component = ''.'' then validatePathLoop temp rest
      else if component = ''..'' \<and> filename temp = ''..'' then Inl ConditionSyntaxError
      else validatePathLoop (pathAppend temp component) rest)"

definition validatePath :: "path \<Rightarrow> error + unit" where
  "validatePath p = validatePathLoop [] p"

definition fileExists :: "'v environment \<Rightarrow> ConditionEvaluator \<Rightarrow> string \<Rightarrow> error + bool" where
  "fileExists env ev filePath =
     (case validatePath (u8path filePath) of
        Inl e \<Rightarrow> Inl e
      | Inr _ \<Rightarrow>
          (if shouldParseOnly ev then Inr False
           else if filePath = ''LOOT'' then Inr True
           else (case gameCache ev of
                   None \<Rightarrow> Inl NullDereference
                 | Some gc \<Rightarrow>
                     (if GetPlugin gc filePath \<noteq> None then Inr True
                      else if hasPluginFileExtension env filePath (gameType ev) then
                        Inr (fileSystemExists env (DataFile filePath) \<or>
                             fileSystemExists env (DataFile (filePath @ ''.ghost'')))
                      else Inr (fileSystemExists env (DataFile filePath))))))"

definition getVersion :: "'v environment \<Rightarrow> ConditionEvaluator \<Rightarrow> GameCache \<Rightarrow> string \<Rightarrow> 'v" where
  "getVersion env ev gc filePath =
     (if filePath = ''LOOT'' then versionOfFile env HostExecutable
      else (case GetPlugin gc filePath of
              Some plugin \<Rightarrow>
                versionOfString env (case pluginVersion plugin of Some v \<Rightarrow> v | None \<Rightarrow> [])
            | None \<Rightarrow>
                (if pluginIsValid env (gameType ev) (DataFile filePath) then
                   versionOfString env
                     (case pluginHeaderVersion env (DataFile filePath) of
                        Some v \<Rightarrow> v | None \<Rightarrow> [])
                 else versionOfFile env (DataFile filePath))))"

definition compareVersions ::
  "('v::ord) environment \<Rightarrow> ConditionEvaluator \<Rightarrow> string \<Rightarrow> string \<Rightarrow> string \<Rightarrow> error + bool" where
  "compareVersions env ev filePath testVersion comparator =
     (case fileExists env ev filePath of
        Inl e \<Rightarrow> Inl e
      | Inr False \<Rightarrow>
          Inr (comparator = ''!='' \<or> comparator = ''<'' \<or> comparator = ''<='')
      | Inr True \<Rightarrow>
          (case gameCache ev of
             None \<Rightarrow> Inl NullDereference
           | Some gc \<Rightarrow>
               (let givenVersion = versionOfString env testVersion;
                    trueVersion = getVersion env ev gc filePath
                in Inr ((comparator = ''=='' \<and> trueVersion = givenVersion) \<or>
                        (comparator = ''!='' \<and> trueVersion \<noteq> givenVersion) \<or>
                        (comparator = ''<'' \<and> trueVersion < givenVersion) \<or>
                        (comparator = ''>'' \<and> givenVersion < trueVersion) \<or>
                        (comparator = ''<='' \<and> trueVersion \<le> givenVersion) \<or>
                        (comparator = ''>='' \<and> givenVersion \<le> trueVersion)))))"


text \<open>
  The condition grammar (condition_grammar.h) is not part of the modelled code and is a
  parameter: what \<open>phrase_parse\<close> makes of a condition for a given evaluator. It throws
  (a predicate's validation raised \<open>ConditionSyntaxError\<close>) or reports whether the
  grammar matched, the input left unconsumed, the value computed, and the writes its
  predicates made to the shared cache.
\<close>

record ParseResult =
  parseMatched :: bool
  unconsumed :: string
  evaluation :: bool
  cacheWrites :: "GameCache \<Rightarrow> GameCache"

type_synonym grammar = "ConditionEvaluator \<Rightarrow> string \<Rightarrow> error + ParseResult"

definition parseCondition ::
  "grammar \<Rightarrow> ConditionEvaluator \<Rightarrow> string \<Rightarrow> error + (bool \<times> ConditionEvaluator)" where
  "parseCondition g ev condition =
     (if condition = [] then Inr (True, ev)
      else (case g ev condition of
              Inl e \<Rightarrow> Inl e
            | Inr r \<Rightarrow>
                (if \<not> parseMatched r \<or> unconsumed r \<noteq> [] then Inl ConditionSyntaxError
                 else Inr (evaluation r,
                           ev\<lparr> gameCache := map_option (cacheWrites r) (gameCache ev) \<rparr>))))"

definition evaluate ::
  "grammar \<Rightarrow> ConditionEvaluator \<Rightarrow> string \<Rightarrow> error + (bool \<times> ConditionEvaluator)" where
  "evaluate g ev condition =
     (if shouldParseOnly ev then
        (case parseCondition g ev condition of
           Inl e \<Rightarrow> Inl e
         | Inr (_, ev') \<Rightarrow> Inr (False, ev'))
      else if condition = [] then Inr (True, ev)
      else (case gameCache ev of
              None \<Rightarrow> Inl NullDereference
            | Some gc \<Rightarrow>
                (let cachedValue = GetCachedCondition gc condition in
                 if snd cachedValue then Inr (fst cachedValue, ev)
                 else (case parseCondition g ev condition of
                         Inl e \<Rightarrow> Inl e
                       | Inr (result, ev') \<Rightarrow>
                           Inr (result,
                                ev'\<lparr> gameCache :=
                                  map_option (\<lambda>c. CacheCondition c condition result)
                                    (gameCache ev') \<rparr>)))))"

definition getCrc ::
  "'v environment \<Rightarrow> GameType \<Rightarrow> GameCache \<Rightarrow> string \<Rightarrow> 32 word \<times> GameCache" where
  "getCrc env gt gc file =
     (let crc = GetCachedCrc gc file in
      if crc \<noteq> 0 then (crc, gc)
      else if file = ''LOOT'' then
        (let crc = GetCrc32 env HostExecutable in (crc, CacheCrc gc file crc))
      else
        (let crc = (case GetPlugin gc file of
                      Some plugin \<Rightarrow> (case pluginCRC plugin of Some c \<Rightarrow> c | None \<Rightarrow> 0)
                    | None \<Rightarrow> crc);
             crc = (if crc = 0 then
                      (if fileSystemExists env (DataFile file) then GetCrc32 env (DataFile file)
                       else if hasPluginFileExtension env file gt \<and>
                               fileSystemExists env (DataFile (file @ ''.ghost''))
                       then GetCrc32 env (DataFile (file @ ''.ghost''))
                       else crc)
                    else crc)
         in (crc, if crc \<noteq> 0 then CacheCrc gc file crc else gc)))"

text \<open>\<open>evaluate(const PluginCleaningData&, const std::string&)\<close>.\<close>

definition evaluateCleaningData ::
  "'v environment \<Rightarrow> string \<Rightarrow> PluginCleaningData \<Rightarrow> ConditionEvaluator \<Rightarrow>
     error + (bool \<times> ConditionEvaluator)" where
  "evaluateCleaningData env name cleaningData ev =
     (if shouldParseOnly ev \<or> name = [] then Inr (False, ev)
      else (case gameCache ev of
              None \<Rightarrow> Inl NullDereference
            | Some gc \<Rightarrow>
                (let r = getCrc env (gameType ev) gc name in
                 Inr (cleaningCRC cleaningData = fst r, ev\<lparr> gameCache := Some (snd r) \<rparr>))))"

text \<open>
  The loops of \<open>evaluateAll\<close>: each element is kept when its test holds, the evaluator
  (its cache) passes from one test to the next, and the first exception ends the loop.
  The source collects the kept elements of a \<open>std::set\<close> into a \<open>std::set\<close> (of a
  vector into a vector), so the kept elements stay in their order.
\<close>

fun keepIf ::
  "('a \<Rightarrow> 's \<Rightarrow> error + (bool \<times> 's)) \<Rightarrow> 'a list \<Rightarrow> 's \<Rightarrow> error + ('a list \<times> 's)" where
  "keepIf t [] s = Inr ([], s)"
| "keepIf t (x # xs) s =
     (case t x s of
        Inl e \<Rightarrow> Inl e
      | Inr (b, s') \<Rightarrow>
          (case keepIf t xs s' of
             Inl e \<Rightarrow> Inl e
           | Inr (ys, s'') \<Rightarrow> Inr (if b then x # ys else ys, s'')))"

definition andThen :: "error + 'a \<Rightarrow> ('a \<Rightarrow> error + 'b) \<Rightarrow> error + 'b" where
  "andThen r k = (case r of Inl e \<Rightarrow> Inl e | Inr x \<Rightarrow> k x)"

definition evaluateAll ::
  "grammar \<Rightarrow> 'v environment \<Rightarrow> ConditionEvaluator \<Rightarrow> PluginMetadata \<Rightarrow>
     error + (PluginMetadata \<times> ConditionEvaluator)" where
  "evaluateAll g env ev pluginMetadata =
     (if shouldParseOnly ev then Inr (pluginMetadata, ev)
      else
        (let evaluatedMetadata =
               (newPluginMetadata (metadataName pluginMetadata))
                 \<lparr> metadataEnabled := metadataEnabled pluginMetadata,
                   metadataLocations := metadataLocations pluginMetadata \<rparr>;
             evaluatedMetadata =
               (case metadataGroup pluginMetadata of
                  Some gr \<Rightarrow> evaluatedMetadata\<lparr> metadataGroup := Some gr \<rparr>
                | None \<Rightarrow> evaluatedMetadata)
         in
         andThen (keepIf (\<lambda>file e. evaluate g e (fileCondition file))
                    (loadAfterFiles pluginMetadata) ev) (\<lambda>(fileSet, ev).
         let evaluatedMetadata = evaluatedMetadata\<lparr> loadAfterFiles := fileSet \<rparr> in
         andThen (keepIf (\<lambda>file e. evaluate g e (fileCondition file))
                    (requirements pluginMetadata) ev) (\<lambda>(fileSet, ev).
         let evaluatedMetadata = evaluatedMetadata\<lparr> requirements := fileSet \<rparr> in
         andThen (keepIf (\<lambda>file e. evaluate g e (fileCondition file))
                    (incompatibilities pluginMetadata) ev) (\<lambda>(fileSet, ev).
         let evaluatedMetadata = evaluatedMetadata\<lparr> incompatibilities := fileSet \<rparr> in
         andThen (keepIf (\<lambda>message e. evaluate g e (messageCondition message))
                    (metadataMessages pluginMetadata) ev) (\<lambda>(msgs, ev).
         let evaluatedMetadata = evaluatedMetadata\<lparr> metadataMessages := msgs \<rparr> in
         andThen (keepIf (\<lambda>tag e. evaluate g e (tagCondition tag))
                    (metadataTags pluginMetadata) ev) (\<lambda>(tagSet, ev).
         let evaluatedMetadata = evaluatedMetadata\<lparr> metadataTags := tagSet \<rparr> in
         if \<not> IsRegexPlugin env (metadataName evaluatedMetadata) then
           andThen (keepIf (evaluateCleaningData env (metadataName pluginMetadata))
                      (dirtyInfo pluginMetadata) ev) (\<lambda>(infoSet, ev).
           let evaluatedMetadata = evaluatedMetadata\<lparr> dirtyInfo := infoSet \<rparr> in
           andThen (keepIf (evaluateCleaningData env (metadataName pluginMetadata))
                      (cleanInfo pluginMetadata) ev) (\<lambda>(infoSet, ev).
           let evaluatedMetadata = evaluatedMetadata\<lparr> cleanInfo := infoSet \<rparr> in
           Inr (evaluatedMetadata, ev)))
         else Inr (evaluatedMetadata, ev))))))))"

subsection \<open>Instances used below\<close>

text \<open>
  A Skyrim installation with two plugins on disk, one of them ghosted, and versions read
  as natural numbers. Plugin file names end in \<open>.esp\<close> or \<open>.esm\<close>; a metadata name is a
  regex when it holds one of the characters \<open>: * ? |\<close>.
\<close>

definition exampleEnvironment :: "nat environment" where
  "exampleEnvironment =
     \<lparr> fileSystemExists =
         (\<lambda>l. l = DataFile ''Skyrim.esm'' \<or> l = DataFile ''Blank.esp.ghost''),
       hasPluginFileExtension =
         (\<lambda>f gt. drop (length f - 4) (to_lower f) = ''.esp'' \<or>
                  drop (length f - 4) (to_lower f) = ''.esm''),
       GetCrc32 = (\<lambda>l. if l = DataFile ''Blank.esp.ghost'' then 0x24F0E2A1
                        else if l = DataFile ''Skyrim.esm'' then 0x187BE342 else 0),
       versionOfString = length,
       versionOfFile = (\<lambda>l. 0),
       pluginIsValid = (\<lambda>gt l. l = DataFile ''Skyrim.esm''),
       pluginHeaderVersion = (\<lambda>l. None),
       IsRegexPlugin = (\<lambda>n. \<exists>c \<in> set n. c = CHR '':'' \<or> c = CHR ''*'' \<or> c = CHR ''?'' \<or> c = CHR ''|'') \<rparr>"

definition emptyGameCache :: GameCache where
  "emptyGameCache = \<lparr> conditions = Map.empty, crcs = Map.empty, cachedPlugins = Map.empty \<rparr>"

definition exampleLoadOrderHandler :: LoadOrderHandler where
  "exampleLoadOrderHandler =
     \<lparr> implicitlyActivePlugins = [''Skyrim.esm'', ''Update.esm''],
       loadOrder = [''Skyrim.esm'', ''Update.esm'', ''Blank.esp''] \<rparr>"

definition exampleEvaluator :: ConditionEvaluator where
  "exampleEvaluator =
     \<lparr> gameType = tes5, gameCache = Some emptyGameCache,
       loadOrderHandler = Some exampleLoadOrderHandler \<rparr>"

text \<open>The evaluator a caller builds to check syntax only: both handles null.\<close>

definition parseOnlyEvaluator :: ConditionEvaluator where
  "parseOnlyEvaluator = \<lparr> gameType = tes4, gameCache = None, loadOrderHandler = None \<rparr>"

text \<open>
  A stand-in for the grammar in the instances: it matches a condition that begins
  \<open>file(\<close>, consuming all of it, and nothing else; its value is false in parse-only
  mode and it writes nothing to the cache.
\<close>

definition exampleGrammar :: grammar where
  "exampleGrammar ev condition =
     Inr \<lparr> parseMatched = (take 5 condition = ''file(''),
           unconsumed = (if take 5 condition = ''file('' then [] else condition),
           evaluation = \<not> shouldParseOnly ev,
           cacheWrites = (\<lambda>gc. gc) \<rparr>"

text \<open>
  Metadata entries with cleaning records: one for the plugin \<open>Blank.esp\<close> (on disk as
  \<open>Blank.esp.ghost\<close>, CRC \<open>0x24F0E2A1\<close>), one keyed by a regex.
\<close>

definition cleaningRecord :: "32 word \<Rightarrow> PluginCleaningData" where
  "cleaningRecord crc =
     \<lparr> cleaningCRC = crc, itmCount = 0, deletedReferenceCount = 0, deletedNavmeshCount = 0,
       cleaningUtility = ''TES5Edit'' \<rparr>"

definition blankEntry :: PluginMetadata where
  "blankEntry =
     (newPluginMetadata ''Blank.esp'')
       \<lparr> dirtyInfo := [cleaningRecord 0x24F0E2A1, cleaningRecord 0x1],
         cleanInfo := [cleaningRecord 0x2] \<rparr>"

definition regexEntry :: PluginMetadata where
  "regexEntry =
     (newPluginMetadata ''Blank.*'') \<lparr> dirtyInfo := [cleaningRecord 0x24F0E2A1] \<rparr>"

definition blankCache :: GameCache where
  "blankCache = emptyGameCache\<lparr> crcs := [''blank.esp'' \<mapsto> 0x24F0E2A1] \<rparr>"

subsection \<open>validatePath\<close>

text \<open>
  Whether a \<open>..\<close> follows a \<open>..\<close> in a component sequence; the flag says whether the
  component before the sequence was \<open>..\<close>.
\<close>

fun dotdotAfter :: "bool \<Rightarrow> string list \<Rightarrow> bool" where
  "dotdotAfter b [] = False"
| "dotdotAfter b (c # cs) = (if c = ''..'' then b \<or> dotdotAfter True cs else dotdotAfter False cs)"

lemma filename_pathAppend: "(filename (pathAppend temp c) = ''..'') = (c = ''..'')"
  by (auto simp add: filename_def pathAppend_def)

lemma validatePathLoop_dotdotAfter:
  "validatePathLoop temp cs =
     (if dotdotAfter (filename temp = ''..'') (filter (\<lambda>c. c \<noteq> ''.'') cs)
      then Inl ConditionSyntaxError else Inr ())"
  by (induction cs arbitrary: temp) (simp_all add: filename_pathAppend)

lemma dotdotAfter_decompose:
  "dotdotAfter b cs =
     ((b \<and> (\<exists>ys. cs = ''..'' # ys)) \<or> (\<exists>xs ys. cs = xs @ ''..'' # ''..'' # ys))"
proof (induction cs arbitrary: b)
  case Nil
  then show ?case by simp
next
  case (Cons c cs)
  have split: "(\<exists>xs ys. c # cs = xs @ ''..'' # ''..'' # ys) =
        ((c = ''..'' \<and> (\<exists>ys. cs = ''..'' # ys)) \<or> (\<exists>xs ys. cs = xs @ ''..'' # ''..'' # ys))"
    by (auto simp add: Cons_eq_append_conv)
  show ?case
    unfolding split by (auto simp add: Cons.IH)
qed

text \<open>
  C5. \<open>validatePath\<close> throws \<open>ConditionSyntaxError\<close> exactly when the components of the
  path, the \<open>.\<close> components dropped, hold a \<open>..\<close> immediately after another \<open>..\<close>;
  every other path is accepted. A single \<open>..\<close> and two \<open>..\<close> with a real component
  between them are accepted; \<open>../..\<close> and \<open>.././..\<close> are rejected.
\<close>

theorem validatePath_rejects_iff:
  "validatePath p =
     (if (\<exists>xs ys. filter (\<lambda>c. c \<noteq> ''.'') p = xs @ ''..'' # ''..'' # ys)
      then Inl ConditionSyntaxError else Inr ()) \<and>
   validatePath (u8path ''..'') = Inr () \<and>
   validatePath (u8path ''../textures/..'') = Inr () \<and>
   validatePath (u8path ''../../Skyrim.esm'') = Inl ConditionSyntaxError \<and>
   validatePath (u8path ''.././..'') = Inl ConditionSyntaxError"
proof -
  have "filename [] \<noteq> ''..''" by (simp add: filename_def)
  then have main: "validatePath p =
     (if (\<exists>xs ys. filter (\<lambda>c. c \<noteq> ''.'') p = xs @ ''..'' # ''..'' # ys)
      then Inl ConditionSyntaxError else Inr ())"
    by (simp add: validatePath_def validatePathLoop_dotdotAfter dotdotAfter_decompose)
  have a: "validatePath (u8path ''..'') = Inr ()"
    by (simp add: validatePath_def u8path_def filename_def pathAppend_def)
  have b: "validatePath (u8path ''../textures/..'') = Inr ()"
    by (simp add: validatePath_def u8path_def filename_def pathAppend_def)
  have c: "validatePath (u8path ''../../Skyrim.esm'') = Inl ConditionSyntaxError"
    by (simp add: validatePath_def u8path_def filename_def pathAppend_def)
  have d: "validatePath (u8path ''.././..'') = Inl ConditionSyntaxError"
    by (simp add: validatePath_def u8path_def filename_def pathAppend_def)
  from main a b c d show ?thesis by simp
qed

subsection \<open>compareVersions\<close>

text \<open>
  C4. When \<open>fileExists\<close> answers false for the path, \<open>compareVersions\<close> returns true
  for the comparators \<open>!=\<close>, \<open><\<close> and \<open><=\<close> and false for \<open>==\<close>, \<open>>\<close> and \<open>>=\<close> (and for
  any other comparator); the answer does not depend on how versions are read from
  strings, files or plugin headers, so no version is extracted.
\<close>

theorem compareVersions_missing_file:
  assumes "fileExists env ev filePath = Inr False"
  shows "compareVersions env ev filePath testVersion comparator =
           Inr (comparator = ''!='' \<or> comparator = ''<'' \<or> comparator = ''<='') \<and>
         (comparator = ''!='' \<or> comparator = ''<'' \<or> comparator = ''<='' \<longrightarrow>
            compareVersions env ev filePath testVersion comparator = Inr True) \<and>
         (comparator = ''=='' \<or> comparator = ''>'' \<or> comparator = ''>='' \<longrightarrow>
            compareVersions env ev filePath testVersion comparator = Inr False) \<and>
         (\<forall>a b c d. compareVersions
            (env\<lparr> versionOfString := a, versionOfFile := b, pluginIsValid := c,
                  pluginHeaderVersion := d \<rparr>) ev filePath testVersion comparator =
            compareVersions env ev filePath testVersion comparator)"
proof -
  have r: "compareVersions env ev filePath testVersion comparator =
           Inr (comparator = ''!='' \<or> comparator = ''<'' \<or> comparator = ''<='')"
    using assms by (simp add: compareVersions_def)
  have "\<And>a b c d. fileExists (env\<lparr> versionOfString := a, versionOfFile := b, pluginIsValid := c,
                  pluginHeaderVersion := d \<rparr>) ev filePath = fileExists env ev filePath"
    by (simp add: fileExists_def split: sum.splits option.splits)
  with assms have i: "\<And>a b c d. compareVersions
            (env\<lparr> versionOfString := a, versionOfFile := b, pluginIsValid := c,
                  pluginHeaderVersion := d \<rparr>) ev filePath testVersion comparator =
            compareVersions env ev filePath testVersion comparator"
    by (simp add: r) (simp add: compareVersions_def)
  from r i show ?thesis by auto
qed


lemma fileExists_nonexistent:
  "fileExists exampleEnvironment exampleEvaluator ''nonexistent.esp'' = Inr False"
  by (simp add: fileExists_def validatePath_def u8path_def filename_def pathAppend_def
      shouldParseOnly_def exampleEvaluator_def exampleEnvironment_def GetPlugin_def
      emptyGameCache_def)

theorem compareVersions_missing_file_witness:
  "fileExists exampleEnvironment exampleEvaluator ''nonexistent.esp'' = Inr False \<and>
   compareVersions exampleEnvironment exampleEvaluator ''nonexistent.esp'' ''1.0'' ''<'' = Inr True \<and>
   compareVersions exampleEnvironment exampleEvaluator ''nonexistent.esp'' ''1.0'' ''=='' = Inr False"
  using compareVersions_missing_file [OF fileExists_nonexistent, of "''1.0''" "''<''"]
        compareVersions_missing_file [OF fileExists_nonexistent, of "''1.0''" "''==''"]
        fileExists_nonexistent
  by simp

subsection \<open>evaluate in parse-only mode\<close>

lemma parseCondition_shouldParseOnly:
  "parseCondition g ev c = Inr (b, ev') \<Longrightarrow>
     shouldParseOnly ev' = shouldParseOnly ev \<and> gameType ev' = gameType ev"
  by (auto simp add: parseCondition_def shouldParseOnly_def split: if_splits sum.splits)

text \<open>
  C2 (as amended). In parse-only mode \<open>evaluate\<close> still parses the condition: it throws
  \<open>ConditionSyntaxError\<close> when the grammar does not match or leaves input unconsumed, and
  passes on what a predicate's validation throws. For every condition that parses it
  returns false, and that includes the empty string.
\<close>

theorem evaluate_parse_only:
  assumes "shouldParseOnly ev"
  shows "(\<forall>r. condition \<noteq> [] \<and> g ev condition = Inr r \<and>
              (\<not> parseMatched r \<or> unconsumed r \<noteq> []) \<longrightarrow>
            evaluate g ev condition = Inl ConditionSyntaxError) \<and>
         (\<forall>e. condition \<noteq> [] \<and> g ev condition = Inl e \<longrightarrow> evaluate g ev condition = Inl e) \<and>
         (\<forall>b ev'. parseCondition g ev condition = Inr (b, ev') \<longrightarrow>
            evaluate g ev condition = Inr (False, ev')) \<and>
         evaluate g ev [] = Inr (False, ev)"
  using assms by (auto simp add: evaluate_def parseCondition_def)


theorem evaluate_parse_only_witness:
  "shouldParseOnly parseOnlyEvaluator \<and>
   evaluate exampleGrammar parseOnlyEvaluator ''file(x)'' = Inr (False, parseOnlyEvaluator) \<and>
   evaluate exampleGrammar parseOnlyEvaluator ''fil'' = Inl ConditionSyntaxError \<and>
   evaluate exampleGrammar parseOnlyEvaluator [] = Inr (False, parseOnlyEvaluator)"
proof -
  have p: "shouldParseOnly parseOnlyEvaluator"
    by (simp add: shouldParseOnly_def parseOnlyEvaluator_def)
  have a: "parseCondition exampleGrammar parseOnlyEvaluator ''file(x)'' =
             Inr (False, parseOnlyEvaluator)"
    by (simp add: parseCondition_def exampleGrammar_def shouldParseOnly_def parseOnlyEvaluator_def)
  have b: "''fil'' \<noteq> [] \<and> exampleGrammar parseOnlyEvaluator ''fil'' =
             Inr \<lparr> parseMatched = False, unconsumed = ''fil'', evaluation = False,
                   cacheWrites = (\<lambda>gc. gc) \<rparr> \<and>
           (\<not> parseMatched \<lparr> parseMatched = False, unconsumed = ''fil'', evaluation = False,
                   cacheWrites = (\<lambda>gc. gc) \<rparr> \<or> unconsumed \<lparr> parseMatched = False, unconsumed = ''fil'', evaluation = False,
                   cacheWrites = (\<lambda>gc. gc) \<rparr> \<noteq> [])"
    by (simp add: exampleGrammar_def p)
  note t = evaluate_parse_only [OF p, of _ exampleGrammar]
  from t [of "''file(x)''"] a
  have 1: "evaluate exampleGrammar parseOnlyEvaluator ''file(x)'' = Inr (False, parseOnlyEvaluator)"
    by blast
  from t [of "''fil''"] b
  have 2: "evaluate exampleGrammar parseOnlyEvaluator ''fil'' = Inl ConditionSyntaxError"
    by blast
  from t [of "[]"]
  have 3: "evaluate exampleGrammar parseOnlyEvaluator [] = Inr (False, parseOnlyEvaluator)"
    by blast
  from p 1 2 3 show ?thesis by simp
qed

text \<open>
  The specification as stated has \<open>evaluate\<close> return true for the empty condition in parse-only
  mode. It returns false: the parse-only branch comes before the test for the empty
  string and discards what \<open>parseCondition\<close> returns.
\<close>

theorem evaluate_parse_only_empty_counterexample:
  "shouldParseOnly parseOnlyEvaluator \<and>
   evaluate exampleGrammar parseOnlyEvaluator [] \<noteq> Inr (True, parseOnlyEvaluator) \<and>
   evaluate exampleGrammar parseOnlyEvaluator [] = Inr (False, parseOnlyEvaluator)"
  by (simp add: evaluate_def parseCondition_def shouldParseOnly_def parseOnlyEvaluator_def)

subsection \<open>evaluateAll and cleaning data\<close>

text \<open>
  The CRC the evaluator reports for a plugin: what \<open>getCrc\<close> returns for the name with
  the evaluator's cache. \<open>freshCrc\<close> is the part of \<open>getCrc\<close> that runs on a cache miss
  for a file other than \<open>LOOT\<close>.
\<close>

definition computedCrc :: "'v environment \<Rightarrow> ConditionEvaluator \<Rightarrow> string \<Rightarrow> 32 word" where
  "computedCrc env ev name =
     (case gameCache ev of
        Some gc \<Rightarrow> fst (getCrc env (gameType ev) gc name)
      | None \<Rightarrow> 0)"



definition freshCrc :: "'v environment \<Rightarrow> GameType \<Rightarrow> Plugin option \<Rightarrow> string \<Rightarrow> 32 word" where
  "freshCrc env gt plugin file =
     (let crc = (case plugin of
                   Some p \<Rightarrow> (case pluginCRC p of Some c \<Rightarrow> c | None \<Rightarrow> 0)
                 | None \<Rightarrow> 0)
      in if crc = 0 then
           (if fileSystemExists env (DataFile file) then GetCrc32 env (DataFile file)
            else if hasPluginFileExtension env file gt \<and>
                    fileSystemExists env (DataFile (file @ ''.ghost''))
            then GetCrc32 env (DataFile (file @ ''.ghost''))
            else 0)
         else crc)"

lemma getCrc_alt:
  "getCrc env gt gc f =
     (if GetCachedCrc gc f \<noteq> 0 then (GetCachedCrc gc f, gc)
      else if f = ''LOOT'' then
        (GetCrc32 env HostExecutable, CacheCrc gc f (GetCrc32 env HostExecutable))
      else (freshCrc env gt (GetPlugin gc f) f,
            if freshCrc env gt (GetPlugin gc f) f \<noteq> 0
            then CacheCrc gc f (freshCrc env gt (GetPlugin gc f) f) else gc))"
proof (cases "GetCachedCrc gc f = 0")
  case True
  then show ?thesis
    by (cases "GetPlugin gc f") (simp_all add: getCrc_def freshCrc_def Let_def)
next
  case False
  then show ?thesis by (simp add: getCrc_def Let_def)
qed


lemma evaluate_shouldParseOnly:
  "evaluate g ev c = Inr (b, ev') \<Longrightarrow>
     shouldParseOnly ev' = shouldParseOnly ev \<and> gameType ev' = gameType ev"
  by (auto simp add: evaluate_def Let_def shouldParseOnly_def
      split: if_splits sum.splits option.splits dest!: parseCondition_shouldParseOnly)

lemma keepIf_invariant:
  assumes "\<And>x s b s'. t x s = Inr (b, s') \<Longrightarrow> P s \<Longrightarrow> P s'"
    and "keepIf t xs s = Inr (ys, s')" and "P s"
  shows "P s'"
  using assms(2,3)
proof (induction xs arbitrary: s ys)
  case Nil
  then show ?case by simp
next
  case (Cons x xs)
  then show ?case
    by (auto split: sum.splits prod.splits dest: assms(1))
qed

lemma getCrc_stable:
  "getCrc env gt (snd (getCrc env gt gc f)) f = getCrc env gt gc f"
proof (cases "crcs gc (to_lower f)")
  case None
  then show ?thesis
    by (cases "f = ''LOOT''")
       (auto simp add: getCrc_alt GetCachedCrc_def CacheCrc_def GetPlugin_def)
next
  case (Some c)
  then show ?thesis
    by (cases "f = ''LOOT''")
       (auto simp add: getCrc_alt GetCachedCrc_def CacheCrc_def GetPlugin_def)
qed


lemma evaluateCleaningData_live:
  assumes "\<not> shouldParseOnly ev" and "name \<noteq> []"
  shows "\<exists>ev'. evaluateCleaningData env name x ev =
                 Inr (cleaningCRC x = computedCrc env ev name, ev') \<and>
               \<not> shouldParseOnly ev' \<and>
               computedCrc env ev' name = computedCrc env ev name"
proof -
  from assms(1) obtain gc where gc: "gameCache ev = Some gc"
    by (auto simp add: shouldParseOnly_def)
  show ?thesis
    using assms gc
    by (simp add: evaluateCleaningData_def computedCrc_def Let_def shouldParseOnly_def
        getCrc_stable)
qed

lemma keepIf_cleaning:
  assumes "name \<noteq> []"
  shows "\<not> shouldParseOnly ev \<Longrightarrow>
         keepIf (evaluateCleaningData env name) xs ev = Inr (ys, ev') \<Longrightarrow>
         ys = filter (\<lambda>x. cleaningCRC x = computedCrc env ev name) xs \<and>
         \<not> shouldParseOnly ev' \<and>
         computedCrc env ev' name = computedCrc env ev name"
proof (induction xs arbitrary: ev ys)
  case Nil
  then show ?case by simp
next
  case (Cons x xs)
  from evaluateCleaningData_live [OF Cons.prems(1) assms, of env x]
  obtain e1 where
    e1: "evaluateCleaningData env name x ev =
           Inr (cleaningCRC x = computedCrc env ev name, e1)"
    and p1: "\<not> shouldParseOnly e1"
    and c1: "computedCrc env e1 name = computedCrc env ev name"
    by blast
  from Cons.prems(2) e1 obtain zs where
    k: "keepIf (evaluateCleaningData env name) xs e1 = Inr (zs, ev')"
    and ys: "ys = (if cleaningCRC x = computedCrc env ev name then x # zs else zs)"
    by (auto split: sum.splits)
  from Cons.IH [OF p1 k] c1 ys show ?case by simp
qed

lemma keepIf_cleaning_no_name:
  "keepIf (evaluateCleaningData env []) xs ev = Inr ([], ev)"
  by (induction xs) (simp_all add: evaluateCleaningData_def)

lemma andThen_Inr:
  "andThen r k = Inr z \<Longrightarrow> \<exists>x. r = Inr x \<and> k x = Inr z"
  by (cases r) (simp_all add: andThen_def)

lemma keepIf_evaluate_live:
  assumes "keepIf (\<lambda>x e. evaluate g e (c x)) xs ev = Inr (ys, ev')"
    and "\<not> shouldParseOnly ev"
  shows "\<not> shouldParseOnly ev'"
  using keepIf_invariant [where P = "\<lambda>e. \<not> shouldParseOnly e", OF _ assms]
  by (auto dest: evaluate_shouldParseOnly)




text \<open>
  C6 (as amended). \<open>evaluateAll\<close> compares CRCs only for an entry that is not a regex
  entry, outside parse-only mode. For such an entry with a non-empty name a dirty or clean
  record is kept exactly when its CRC equals the CRC computed for the plugin; with an
  empty name no record is kept. For a regex entry no CRC is compared and the result
  holds no dirty and no clean records at all. In parse-only mode the metadata is
  returned as it was given.
\<close>

theorem evaluateAll_cleaning_info:
  assumes "evaluateAll g env ev md = Inr (md', ev')"
  shows "(shouldParseOnly ev \<longrightarrow> md' = md) \<and>
         (\<not> shouldParseOnly ev \<and> IsRegexPlugin env (metadataName md) \<longrightarrow>
            dirtyInfo md' = [] \<and> cleanInfo md' = []) \<and>
         (\<not> shouldParseOnly ev \<and> \<not> IsRegexPlugin env (metadataName md) \<and>
          metadataName md \<noteq> [] \<longrightarrow>
            dirtyInfo md' =
              filter (\<lambda>i. cleaningCRC i = computedCrc env ev' (metadataName md)) (dirtyInfo md) \<and>
            cleanInfo md' =
              filter (\<lambda>i. cleaningCRC i = computedCrc env ev' (metadataName md)) (cleanInfo md)) \<and>
         (\<not> shouldParseOnly ev \<and> \<not> IsRegexPlugin env (metadataName md) \<and>
          metadataName md = [] \<longrightarrow>
            dirtyInfo md' = [] \<and> cleanInfo md' = [])"
proof (cases "shouldParseOnly ev")
  case True
  with assms show ?thesis by (simp add: evaluateAll_def)
next
  case False
  let ?n = "metadataName md"
  from assms False have
    "\<exists>f1 e1 f2 e2 f3 e3 m4 e4 t5 e5.
      keepIf (\<lambda>file e. evaluate g e (fileCondition file)) (loadAfterFiles md) ev = Inr (f1, e1) \<and>
      keepIf (\<lambda>file e. evaluate g e (fileCondition file)) (requirements md) e1 = Inr (f2, e2) \<and>
      keepIf (\<lambda>file e. evaluate g e (fileCondition file)) (incompatibilities md) e2 = Inr (f3, e3) \<and>
      keepIf (\<lambda>message e. evaluate g e (messageCondition message)) (metadataMessages md) e3 = Inr (m4, e4) \<and>
      keepIf (\<lambda>tag e. evaluate g e (tagCondition tag)) (metadataTags md) e4 = Inr (t5, e5) \<and>
      ((IsRegexPlugin env ?n \<and> dirtyInfo md' = [] \<and> cleanInfo md' = []) \<or>
       (\<not> IsRegexPlugin env ?n \<and>
        (\<exists>d e6. keepIf (evaluateCleaningData env ?n) (dirtyInfo md) e5 = Inr (d, e6) \<and>
           keepIf (evaluateCleaningData env ?n) (cleanInfo md) e6 = Inr (cleanInfo md', ev') \<and>
           dirtyInfo md' = d)))"
    unfolding evaluateAll_def Let_def
    by (cases "metadataGroup md")
       (auto simp add: newPluginMetadata_def dest!: andThen_Inr split: if_splits)
  then obtain f1 e1 f2 e2 f3 e3 m4 e4 t5 e5 where
    k1: "keepIf (\<lambda>file e. evaluate g e (fileCondition file)) (loadAfterFiles md) ev = Inr (f1, e1)"
    and k2: "keepIf (\<lambda>file e. evaluate g e (fileCondition file)) (requirements md) e1 = Inr (f2, e2)"
    and k3: "keepIf (\<lambda>file e. evaluate g e (fileCondition file)) (incompatibilities md) e2 = Inr (f3, e3)"
    and k4: "keepIf (\<lambda>message e. evaluate g e (messageCondition message)) (metadataMessages md) e3 = Inr (m4, e4)"
    and k5: "keepIf (\<lambda>tag e. evaluate g e (tagCondition tag)) (metadataTags md) e4 = Inr (t5, e5)"
    and tail: "(IsRegexPlugin env ?n \<and> dirtyInfo md' = [] \<and> cleanInfo md' = []) \<or>
       (\<not> IsRegexPlugin env ?n \<and>
        (\<exists>d e6. keepIf (evaluateCleaningData env ?n) (dirtyInfo md) e5 = Inr (d, e6) \<and>
           keepIf (evaluateCleaningData env ?n) (cleanInfo md) e6 = Inr (cleanInfo md', ev') \<and>
           dirtyInfo md' = d))"
    by blast
  have p5: "\<not> shouldParseOnly e5"
    using keepIf_evaluate_live [OF k5] keepIf_evaluate_live [OF k4]
      keepIf_evaluate_live [OF k3] keepIf_evaluate_live [OF k2]
      keepIf_evaluate_live [OF k1] False
    by blast
  show ?thesis
  proof (cases "IsRegexPlugin env ?n")
    case True
    with tail False show ?thesis by simp
  next
    case notRegex: False
    from tail notRegex obtain e6 where
      d: "keepIf (evaluateCleaningData env ?n) (dirtyInfo md) e5 = Inr (dirtyInfo md', e6)"
      and c: "keepIf (evaluateCleaningData env ?n) (cleanInfo md) e6 = Inr (cleanInfo md', ev')"
      by blast
    show ?thesis
    proof (cases "?n = []")
      case True
      with d c False notRegex show ?thesis
        by (simp add: keepIf_cleaning_no_name)
    next
      case named: False
      from keepIf_cleaning [OF named p5 d]
      have d': "dirtyInfo md' = filter (\<lambda>x. cleaningCRC x = computedCrc env e5 ?n) (dirtyInfo md)"
        and p6: "\<not> shouldParseOnly e6"
        and c6: "computedCrc env e6 ?n = computedCrc env e5 ?n"
        by simp_all
      from keepIf_cleaning [OF named p6 c]
      have c': "cleanInfo md' = filter (\<lambda>x. cleaningCRC x = computedCrc env e6 ?n) (cleanInfo md)"
        and c7: "computedCrc env ev' ?n = computedCrc env e6 ?n"
        by simp_all
      from d' c' c6 c7 False notRegex named show ?thesis by simp
    qed
  qed
qed


lemma getCrc_blank:
  "getCrc exampleEnvironment tes5 emptyGameCache ''Blank.esp'' = (0x24F0E2A1, blankCache)"
  by (simp add: getCrc_def Let_def GetCachedCrc_def CacheCrc_def GetPlugin_def
      emptyGameCache_def blankCache_def exampleEnvironment_def to_lower_def to_lower_char_def)

lemma getCrc_blank_cached:
  "getCrc exampleEnvironment tes5 blankCache ''Blank.esp'' = (0x24F0E2A1, blankCache)"
  by (simp add: getCrc_def Let_def GetCachedCrc_def
      emptyGameCache_def blankCache_def to_lower_def to_lower_char_def)

lemma evaluateAll_blankEntry:
  "evaluateAll exampleGrammar exampleEnvironment exampleEvaluator blankEntry =
     Inr (blankEntry\<lparr> dirtyInfo := [cleaningRecord 0x24F0E2A1], cleanInfo := [] \<rparr>,
          exampleEvaluator\<lparr> gameCache := Some blankCache \<rparr>)"
proof -
  have r: "\<not> IsRegexPlugin exampleEnvironment ''Blank.esp''"
    by (simp add: exampleEnvironment_def)
  have p: "\<not> shouldParseOnly exampleEvaluator"
    "\<not> shouldParseOnly (exampleEvaluator\<lparr> gameCache := Some blankCache \<rparr>)"
    by (simp_all add: shouldParseOnly_def exampleEvaluator_def)
  have g: "gameCache exampleEvaluator = Some emptyGameCache" "gameType exampleEvaluator = tes5"
    by (simp_all add: exampleEvaluator_def)
  have d: "keepIf (evaluateCleaningData exampleEnvironment ''Blank.esp'')
             [cleaningRecord 0x24F0E2A1, cleaningRecord 0x1] exampleEvaluator =
           Inr ([cleaningRecord 0x24F0E2A1], exampleEvaluator\<lparr> gameCache := Some blankCache \<rparr>)"
    by (simp add: evaluateCleaningData_def p g getCrc_blank getCrc_blank_cached cleaningRecord_def)
  have c: "keepIf (evaluateCleaningData exampleEnvironment ''Blank.esp'')
             [cleaningRecord 0x2] (exampleEvaluator\<lparr> gameCache := Some blankCache \<rparr>) =
           Inr ([], exampleEvaluator\<lparr> gameCache := Some blankCache \<rparr>)"
    by (simp add: evaluateCleaningData_def p g getCrc_blank_cached cleaningRecord_def)
  show ?thesis
    by (simp add: evaluateAll_def p r andThen_def Let_def blankEntry_def newPluginMetadata_def d c
        del: keepIf.simps(2))
qed

theorem evaluateAll_cleaning_info_witness:
  "\<not> shouldParseOnly exampleEvaluator \<and>
   \<not> IsRegexPlugin exampleEnvironment (metadataName blankEntry) \<and>
   metadataName blankEntry \<noteq> [] \<and>
   dirtyInfo blankEntry = [cleaningRecord 0x24F0E2A1, cleaningRecord 0x1] \<and>
   computedCrc exampleEnvironment (exampleEvaluator\<lparr> gameCache := Some blankCache \<rparr>)
     (metadataName blankEntry) = 0x24F0E2A1 \<and>
   dirtyInfo (blankEntry\<lparr> dirtyInfo := [cleaningRecord 0x24F0E2A1], cleanInfo := [] \<rparr>) =
     filter (\<lambda>i. cleaningCRC i = 0x24F0E2A1) (dirtyInfo blankEntry)"
proof -
  have r: "\<not> IsRegexPlugin exampleEnvironment (metadataName blankEntry)"
    by (simp add: exampleEnvironment_def blankEntry_def newPluginMetadata_def)
  have p: "\<not> shouldParseOnly exampleEvaluator"
    by (simp add: shouldParseOnly_def exampleEvaluator_def)
  have n: "metadataName blankEntry = ''Blank.esp''"
    by (simp add: blankEntry_def newPluginMetadata_def)
  have c: "computedCrc exampleEnvironment (exampleEvaluator\<lparr> gameCache := Some blankCache \<rparr>)
     (metadataName blankEntry) = 0x24F0E2A1"
    by (simp add: computedCrc_def n exampleEvaluator_def getCrc_blank_cached)
  have d: "dirtyInfo blankEntry = [cleaningRecord 0x24F0E2A1, cleaningRecord 0x1]"
    by (simp add: blankEntry_def)
  from evaluateAll_cleaning_info [OF evaluateAll_blankEntry] r p n c d
  show ?thesis by simp
qed

text \<open>
  The specification as stated leaves the dirty and clean info of a regex entry unfiltered. The
  result for a regex entry is built from a fresh \<open>PluginMetadata\<close> whose cleaning data is
  never set: the records are dropped.
\<close>

theorem evaluateAll_regex_counterexample:
  "IsRegexPlugin exampleEnvironment (metadataName regexEntry) \<and>
   \<not> shouldParseOnly exampleEvaluator \<and>
   dirtyInfo regexEntry = [cleaningRecord 0x24F0E2A1] \<and>
   evaluateAll exampleGrammar exampleEnvironment exampleEvaluator regexEntry =
     Inr (regexEntry\<lparr> dirtyInfo := [] \<rparr>, exampleEvaluator)"
proof -
  have r: "IsRegexPlugin exampleEnvironment ''Blank.*''"
    by (simp add: exampleEnvironment_def)
  have p: "\<not> shouldParseOnly exampleEvaluator"
    by (simp add: shouldParseOnly_def exampleEvaluator_def)
  show ?thesis
    by (simp add: evaluateAll_def p r andThen_def Let_def regexEntry_def newPluginMetadata_def)
qed


section \<open>ApiDatabase\<close>

subsection \<open>LoadLists\<close>

text \<open>
  The file system the database loads from: whether a path exists, and what
  \<open>MetadataList::Load\<close> (the serialiser, outside the modelled code) makes of the file at
  a path when called on a fresh document: a document, or an exception.
\<close>

record FileSystem =
  pathExists :: "string \<Rightarrow> bool"
  Load :: "string \<Rightarrow> error + MetadataList"

record ApiDatabase =
  masterlist :: MetadataList
  userlist :: MetadataList
  conditionEvaluator :: ConditionEvaluator

text \<open>
  \<open>LoadLists\<close> returns the outcome of the call (\<open>Inl\<close> the exception thrown) and the
  database as the call leaves it. The two locals \<open>temp\<close> and \<open>userTemp\<close> are loaded
  first; the members are assigned last.
\<close>

definition loadTemp :: "FileSystem \<Rightarrow> string \<Rightarrow> error + MetadataList" where
  "loadTemp fs p =
     (if p \<noteq> [] then
        (if pathExists fs p then Load fs p else Inl FileAccessError)
      else Inr emptyMetadataList)"

definition LoadLists ::
  "FileSystem \<Rightarrow> ApiDatabase \<Rightarrow> string \<Rightarrow> string \<Rightarrow> (error + unit) \<times> ApiDatabase" where
  "LoadLists fs db masterlistPath userlistPath =
     (case loadTemp fs masterlistPath of
        Inl e \<Rightarrow> (Inl e, db)
      | Inr temp \<Rightarrow>
          (case loadTemp fs userlistPath of
             Inl e \<Rightarrow> (Inl e, db)
           | Inr userTemp \<Rightarrow>
               (Inr (), db\<lparr> masterlist := temp, userlist := userTemp \<rparr>)))"


subsection \<open>Properties of LoadLists\<close>

lemma loadTemp_missing:
  "p \<noteq> [] \<Longrightarrow> \<not> pathExists fs p \<Longrightarrow> loadTemp fs p = Inl FileAccessError"
  by (simp add: loadTemp_def)

lemma LoadLists_cases:
  "LoadLists fs db mp up =
     (case loadTemp fs mp of
        Inl e \<Rightarrow> (Inl e, db)
      | Inr temp \<Rightarrow>
          (case loadTemp fs up of
             Inl e \<Rightarrow> (Inl e, db)
           | Inr userTemp \<Rightarrow> (Inr (), db\<lparr> masterlist := temp, userlist := userTemp \<rparr>)))"
  by (simp add: LoadLists_def split: sum.splits)

text \<open>
  C9. \<open>LoadLists\<close> is atomic on failure: whenever the call throws, the database is the
  one it was called on. It throws \<open>FileAccessError\<close> for a non-empty masterlist path that
  does not exist, and for a non-empty userlist path that does not exist once the
  masterlist has loaded; it throws what \<open>Load\<close> throws; and when it returns, both
  members hold the freshly loaded documents.
\<close>

theorem LoadLists_atomic_on_failure:
  "(\<forall>e. fst (LoadLists fs db mp up) = Inl e \<longrightarrow> snd (LoadLists fs db mp up) = db) \<and>
   (mp \<noteq> [] \<and> \<not> pathExists fs mp \<longrightarrow> LoadLists fs db mp up = (Inl FileAccessError, db)) \<and>
   (\<forall>temp. loadTemp fs mp = Inr temp \<and> up \<noteq> [] \<and> \<not> pathExists fs up \<longrightarrow>
      LoadLists fs db mp up = (Inl FileAccessError, db)) \<and>
   (\<forall>e. mp \<noteq> [] \<and> pathExists fs mp \<and> Load fs mp = Inl e \<longrightarrow>
      LoadLists fs db mp up = (Inl e, db)) \<and>
   (\<forall>temp e. loadTemp fs mp = Inr temp \<and> up \<noteq> [] \<and> pathExists fs up \<and> Load fs up = Inl e \<longrightarrow>
      LoadLists fs db mp up = (Inl e, db)) \<and>
   (\<forall>temp userTemp. loadTemp fs mp = Inr temp \<and> loadTemp fs up = Inr userTemp \<longrightarrow>
      LoadLists fs db mp up = (Inr (), db\<lparr> masterlist := temp, userlist := userTemp \<rparr>))"
proof -
  have a: "\<forall>e. fst (LoadLists fs db mp up) = Inl e \<longrightarrow> snd (LoadLists fs db mp up) = db"
    by (simp add: LoadLists_cases split: sum.splits)
  have b: "mp \<noteq> [] \<and> \<not> pathExists fs mp \<longrightarrow> LoadLists fs db mp up = (Inl FileAccessError, db)"
    by (simp add: LoadLists_cases loadTemp_missing)
  have c: "\<forall>temp. loadTemp fs mp = Inr temp \<and> up \<noteq> [] \<and> \<not> pathExists fs up \<longrightarrow>
      LoadLists fs db mp up = (Inl FileAccessError, db)"
    by (simp add: LoadLists_cases loadTemp_missing)
  have d: "\<forall>e. mp \<noteq> [] \<and> pathExists fs mp \<and> Load fs mp = Inl e \<longrightarrow>
      LoadLists fs db mp up = (Inl e, db)"
    by (simp add: LoadLists_cases loadTemp_def)
  have e: "\<forall>temp e. loadTemp fs mp = Inr temp \<and> up \<noteq> [] \<and> pathExists fs up \<and> Load fs up = Inl e \<longrightarrow>
      LoadLists fs db mp up = (Inl e, db)"
    by (simp add: LoadLists_cases loadTemp_def)
  have f: "\<forall>temp userTemp. loadTemp fs mp = Inr temp \<and> loadTemp fs up = Inr userTemp \<longrightarrow>
      LoadLists fs db mp up = (Inr (), db\<lparr> masterlist := temp, userlist := userTemp \<rparr>)"
    by (simp add: LoadLists_cases)
  from a b c d e f show ?thesis by blast
qed

text \<open>
  An instance: the masterlist at \<open>''m.yaml''\<close> loads, the userlist path \<open>''u.yaml''\<close>
  does not exist; the call throws and the database keeps the documents it held.
\<close>

definition exampleList :: MetadataList where
  "exampleList = emptyMetadataList\<lparr> bashTags := [''Delev''] \<rparr>"

definition exampleFileSystem :: FileSystem where
  "exampleFileSystem =
     \<lparr> pathExists = (\<lambda>p. p = ''m.yaml''),
       Load = (\<lambda>p. if p = ''m.yaml'' then Inr emptyMetadataList else Inl FileAccessError) \<rparr>"

definition exampleDatabase :: ApiDatabase where
  "exampleDatabase =
     \<lparr> masterlist = exampleList, userlist = exampleList,
       conditionEvaluator = exampleEvaluator \<rparr>"

theorem LoadLists_atomic_on_failure_witness:
  "fst (LoadLists exampleFileSystem exampleDatabase ''m.yaml'' ''u.yaml'') = Inl FileAccessError \<and>
   snd (LoadLists exampleFileSystem exampleDatabase ''m.yaml'' ''u.yaml'') = exampleDatabase \<and>
   loadTemp exampleFileSystem ''m.yaml'' = Inr emptyMetadataList \<and>
   LoadLists exampleFileSystem exampleDatabase ''m.yaml'' [] =
     (Inr (), exampleDatabase\<lparr> masterlist := emptyMetadataList, userlist := emptyMetadataList \<rparr>)"
proof -
  have l: "loadTemp exampleFileSystem ''m.yaml'' = Inr emptyMetadataList"
    by (simp add: loadTemp_def exampleFileSystem_def)
  have u: "loadTemp exampleFileSystem [] = Inr emptyMetadataList"
    by (simp add: loadTemp_def)
  have n: "''u.yaml'' \<noteq> [] \<and> \<not> pathExists exampleFileSystem ''u.yaml''"
    by (simp add: exampleFileSystem_def)
  note t = LoadLists_atomic_on_failure [of exampleFileSystem exampleDatabase "''m.yaml''"]
  from t [of "''u.yaml''"] l n
  have f: "LoadLists exampleFileSystem exampleDatabase ''m.yaml'' ''u.yaml'' =
             (Inl FileAccessError, exampleDatabase)"
    by blast
  from t [of "[]"] l u
  have s: "LoadLists exampleFileSystem exampleDatabase ''m.yaml'' [] =
     (Inr (), exampleDatabase\<lparr> masterlist := emptyMetadataList, userlist := emptyMetadataList \<rparr>)"
    by blast
  from f l s show ?thesis by simp
qed


subsection \<open>GetPluginMetadata\<close>

text \<open>
  \<open>MetadataList::FindPlugin\<close> and \<open>PluginMetadata::MergeMetadata\<close> are not part of the
  modelled code and are parameters. The evaluator is shared: the call returns it with
  the cache as \<open>EvaluateAll\<close> left it.
\<close>

definition GetPluginMetadata ::
  "(MetadataList \<Rightarrow> string \<Rightarrow> PluginMetadata option) \<Rightarrow>
   (PluginMetadata \<Rightarrow> PluginMetadata \<Rightarrow> PluginMetadata) \<Rightarrow>
   grammar \<Rightarrow> 'v environment \<Rightarrow> ApiDatabase \<Rightarrow> string \<Rightarrow> bool \<Rightarrow> bool \<Rightarrow>
     error + (PluginMetadata option \<times> ConditionEvaluator)" where
  "GetPluginMetadata FindPlugin MergeMetadata g env db plugin includeUserMetadata
       evaluateConditions =
     (let metadata = FindPlugin (masterlist db) plugin;
          metadata =
            (if includeUserMetadata then
               (let userMetadata = FindPlugin (userlist db) plugin in
                if metadata \<noteq> None \<and> userMetadata \<noteq> None then
                  Some (MergeMetadata (the metadata) (the userMetadata))
                else if userMetadata \<noteq> None then userMetadata
                else metadata)
             else metadata)
      in if evaluateConditions \<and> metadata \<noteq> None then
           (case evaluateAll g env (conditionEvaluator db) (the metadata) of
              Inl e \<Rightarrow> Inl e
            | Inr (evaluated, ev) \<Rightarrow> Inr (Some evaluated, ev))
         else Inr (metadata, conditionEvaluator db))"

text \<open>
  For the instances: a lookup by case-folded name among the exact-name entries, a merge
  that appends tags and messages, and a database with a masterlist and a userlist entry
  for \<open>Blank.esp\<close>.
\<close>

definition exampleFindPlugin :: "MetadataList \<Rightarrow> string \<Rightarrow> PluginMetadata option" where
  "exampleFindPlugin l n = find (\<lambda>m. to_lower (metadataName m) = to_lower n) (plugins l)"

definition exampleMergeMetadata :: "PluginMetadata \<Rightarrow> PluginMetadata \<Rightarrow> PluginMetadata" where
  "exampleMergeMetadata m u =
     m\<lparr> metadataEnabled := metadataEnabled m \<and> metadataEnabled u,
        metadataTags := metadataTags m @ metadataTags u,
        metadataMessages := metadataMessages m @ metadataMessages u \<rparr>"

definition userEntry :: PluginMetadata where
  "userEntry =
     (newPluginMetadata ''blank.esp'')
       \<lparr> metadataTags := [\<lparr> tagName = ''Delev'', tagIsAddition = True, tagCondition = [] \<rparr>] \<rparr>"

definition blankDatabase :: ApiDatabase where
  "blankDatabase =
     \<lparr> masterlist = emptyMetadataList\<lparr> plugins := [blankEntry] \<rparr>,
       userlist = emptyMetadataList\<lparr> plugins := [userEntry] \<rparr>,
       conditionEvaluator = exampleEvaluator \<rparr>"

text \<open>
  C3. Without evaluation, \<open>GetPluginMetadata\<close> returns the masterlist's \<open>FindPlugin\<close>
  result when user metadata is not included; with user metadata included it returns the
  masterlist metadata with the user metadata merged into it when both lists match, the
  user metadata alone when only the userlist matches, the masterlist metadata when only
  the masterlist matches, and nothing when neither matches. With evaluation, a result
  that exists is passed through \<open>evaluateAll\<close>, and an absent result stays absent.
\<close>

theorem GetPluginMetadata_composition:
  fixes F :: "MetadataList \<Rightarrow> string \<Rightarrow> PluginMetadata option"
  shows
  "(\<not> includeUser \<longrightarrow>
      GetPluginMetadata F M g env db name includeUser False =
        Inr (F (masterlist db) name, conditionEvaluator db)) \<and>
   (\<forall>m u. includeUser \<and> F (masterlist db) name = Some m \<and> F (userlist db) name = Some u \<longrightarrow>
      GetPluginMetadata F M g env db name includeUser False =
        Inr (Some (M m u), conditionEvaluator db)) \<and>
   (\<forall>u. includeUser \<and> F (masterlist db) name = None \<and> F (userlist db) name = Some u \<longrightarrow>
      GetPluginMetadata F M g env db name includeUser False =
        Inr (Some u, conditionEvaluator db)) \<and>
   (\<forall>m. includeUser \<and> F (masterlist db) name = Some m \<and> F (userlist db) name = None \<longrightarrow>
      GetPluginMetadata F M g env db name includeUser False =
        Inr (Some m, conditionEvaluator db)) \<and>
   (includeUser \<and> F (masterlist db) name = None \<and> F (userlist db) name = None \<longrightarrow>
      GetPluginMetadata F M g env db name includeUser False =
        Inr (None, conditionEvaluator db)) \<and>
   (\<forall>m. GetPluginMetadata F M g env db name includeUser False =
          Inr (Some m, conditionEvaluator db) \<longrightarrow>
      GetPluginMetadata F M g env db name includeUser True =
        (case evaluateAll g env (conditionEvaluator db) m of
           Inl e \<Rightarrow> Inl e
         | Inr (evaluated, ev) \<Rightarrow> Inr (Some evaluated, ev))) \<and>
   (GetPluginMetadata F M g env db name includeUser False =
          Inr (None, conditionEvaluator db) \<longrightarrow>
      GetPluginMetadata F M g env db name includeUser True =
        Inr (None, conditionEvaluator db))"
  by (auto simp add: GetPluginMetadata_def Let_def)

lemma find_blank:
  "exampleFindPlugin (masterlist blankDatabase) ''Blank.esp'' = Some blankEntry"
  "exampleFindPlugin (userlist blankDatabase) ''Blank.esp'' = Some userEntry"
  by (simp_all add: exampleFindPlugin_def blankDatabase_def emptyMetadataList_def
      blankEntry_def userEntry_def newPluginMetadata_def to_lower_def to_lower_char_def)

theorem GetPluginMetadata_composition_witness:
  "GetPluginMetadata exampleFindPlugin exampleMergeMetadata exampleGrammar exampleEnvironment
     blankDatabase ''Blank.esp'' True False =
       Inr (Some (exampleMergeMetadata blankEntry userEntry), exampleEvaluator) \<and>
   GetPluginMetadata exampleFindPlugin exampleMergeMetadata exampleGrammar exampleEnvironment
     blankDatabase ''Blank.esp'' False False = Inr (Some blankEntry, exampleEvaluator) \<and>
   GetPluginMetadata exampleFindPlugin exampleMergeMetadata exampleGrammar exampleEnvironment
     blankDatabase ''Blank.esp'' False True =
       Inr (Some (blankEntry\<lparr> dirtyInfo := [cleaningRecord 0x24F0E2A1], cleanInfo := [] \<rparr>),
            exampleEvaluator\<lparr> gameCache := Some blankCache \<rparr>)"
proof -
  have e: "conditionEvaluator blankDatabase = exampleEvaluator"
    by (simp add: blankDatabase_def)
  note t = GetPluginMetadata_composition [of _ exampleFindPlugin exampleMergeMetadata
      exampleGrammar exampleEnvironment blankDatabase "''Blank.esp''"]
  from t [of True] find_blank e
  have 1: "GetPluginMetadata exampleFindPlugin exampleMergeMetadata exampleGrammar
      exampleEnvironment blankDatabase ''Blank.esp'' True False =
       Inr (Some (exampleMergeMetadata blankEntry userEntry), exampleEvaluator)"
    by simp
  from t [of False] find_blank e
  have 2: "GetPluginMetadata exampleFindPlugin exampleMergeMetadata exampleGrammar
      exampleEnvironment blankDatabase ''Blank.esp'' False False =
        Inr (Some blankEntry, exampleEvaluator)"
    by simp
  from t [of False] 2 e evaluateAll_blankEntry
  have 3: "GetPluginMetadata exampleFindPlugin exampleMergeMetadata exampleGrammar
      exampleEnvironment blankDatabase ''Blank.esp'' False True =
       Inr (Some (blankEntry\<lparr> dirtyInfo := [cleaningRecord 0x24F0E2A1], cleanInfo := [] \<rparr>),
            exampleEvaluator\<lparr> gameCache := Some blankCache \<rparr>)"
    by simp
  from 1 2 3 show ?thesis by simp
qed



section \<open>Plugin sorter\<close>

subsection \<open>Comparing file names\<close>

text \<open>
  Modelled from the spec: \<open>CompareFilenames\<close> and \<open>loot::equivalent\<close> (api/helpers/text.h,
  not among the sources). The spec has plugin names compared case-insensitively and
  plugins identified by case-folded file name: the two names are case-folded and
  compared byte by byte, the result negative, zero or positive; two names are
  equivalent when they compare equal.
\<close>

fun compareBytes :: "string \<Rightarrow> string \<Rightarrow> int" where
  "compareBytes [] [] = 0"
| "compareBytes [] (y # ys) = -1"
| "compareBytes (x # xs) [] = 1"
| "compareBytes (x # xs) (y # ys) =
     (if (of_char x :: nat) < of_char y then -1
      else if (of_char y :: nat) < of_char x then 1
      else compareBytes xs ys)"

definition CompareFilenames :: "string \<Rightarrow> string \<Rightarrow> int" where
  "CompareFilenames lhs rhs = compareBytes (to_lower lhs) (to_lower rhs)"

definition equivalent :: "string \<Rightarrow> string \<Rightarrow> bool" where
  "equivalent lhs rhs = (CompareFilenames lhs rhs = 0)"

subsection \<open>The plugin graph\<close>

text \<open>
  A vertex of the graph is its position in the vertex list, in insertion order. The
  edges are kept in insertion order, so the out-edges and the in-edges of a vertex are
  met in the order they were added. \<open>logger\<close> says whether a logger is configured;
  what is logged is not modelled.
\<close>

record PluginSortingData =
  sortingName :: string
  isMaster :: bool
  loadOrderIndex :: "nat option"
  sortingGroup :: string
  masters :: "string list"
  masterlistRequirements :: "File list"
  userRequirements :: "File list"
  masterlistLoadAfterFiles :: "File list"
  userLoadAfterFiles :: "File list"
  afterGroupPlugins :: "string list"
  numOverrideFormIDs :: nat

record PluginSorter =
  graphVertices :: "PluginSortingData list"
  graphEdges :: "(nat \<times> nat \<times> EdgeType) list"
  pathsCache :: "(nat \<times> nat) set"
  sorterGroups :: "Group list"
  logger :: bool

text \<open>The pairs of vertices joined by an edge of the graph.\<close>

definition edgeRel :: "(nat \<times> nat \<times> EdgeType) list \<Rightarrow> (nat \<times> nat) set" where
  "edgeRel es = (\<lambda>e. (fst e, fst (snd e))) ` set es"

text \<open>\<open>boost::edge(u, v, graph_).second\<close>: whether the graph has an edge from u to v.\<close>

definition edgeExists :: "PluginSorter \<Rightarrow> nat \<Rightarrow> nat \<Rightarrow> bool" where
  "edgeExists s u v = ((u, v) \<in> edgeRel (graphEdges s))"

definition adjacent_vertices :: "nat \<Rightarrow> (nat \<times> nat \<times> EdgeType) list \<Rightarrow> nat list" where
  "adjacent_vertices v es = map (\<lambda>e. fst (snd e)) (filter (\<lambda>e. fst e = v) es)"

definition inv_adjacent_vertices :: "nat \<Rightarrow> (nat \<times> nat \<times> EdgeType) list \<Rightarrow> nat list" where
  "inv_adjacent_vertices v es = map fst (filter (\<lambda>e. fst (snd e) = v) es)"

fun GetVertexByNameFrom :: "nat \<Rightarrow> PluginSortingData list \<Rightarrow> string \<Rightarrow> nat option" where
  "GetVertexByNameFrom i [] name = None"
| "GetVertexByNameFrom i (v # vs) name =
     (if CompareFilenames (sortingName v) name = 0 then Some i
      else GetVertexByNameFrom (Suc i) vs name)"

definition GetVertexByName :: "PluginSorter \<Rightarrow> string \<Rightarrow> nat option" where
  "GetVertexByName s name = GetVertexByNameFrom 0 (graphVertices s) name"

definition AddEdge :: "PluginSorter \<Rightarrow> nat \<Rightarrow> nat \<Rightarrow> EdgeType \<Rightarrow> PluginSorter" where
  "AddEdge s fromVertex toVertex edgeType =
     (if (fromVertex, toVertex) \<in> pathsCache s then s
      else s\<lparr> graphEdges := graphEdges s @ [(fromVertex, toVertex, edgeType)],
              pathsCache := insert (fromVertex, toVertex) (pathsCache s) \<rparr>)"

subsection \<open>EdgeCreatesCycle\<close>

text \<open>
  The two inner loops of the search: every adjacent vertex not visited before is
  recorded in the paths cache as reachable from the start (as reaching the end), marked
  visited and queued.
\<close>

type_synonym search = "nat list \<times> nat set \<times> (nat \<times> nat) set"

fun visitForward :: "nat \<Rightarrow> nat list \<Rightarrow> search \<Rightarrow> search" where
  "visitForward start [] st = st"
| "visitForward start (adjacentV # rest) (queue, visited, cache) =
     (if adjacentV \<notin> visited then
        visitForward start rest
          (queue @ [adjacentV], insert adjacentV visited, insert (start, adjacentV) cache)
      else visitForward start rest (queue, visited, cache))"

fun visitReverse :: "nat \<Rightarrow> nat list \<Rightarrow> search \<Rightarrow> search" where
  "visitReverse end [] st = st"
| "visitReverse end (adjacentV # rest) (queue, visited, cache) =
     (if adjacentV \<notin> visited then
        visitReverse end rest
          (queue @ [adjacentV], insert adjacentV visited, insert (adjacentV, end) cache)
      else visitReverse end rest (queue, visited, cache))"

text \<open>
  One iteration of the \<open>while\<close> loop: the forward half, then the reverse half. An
  iteration either returns from the function or leaves the queues, visited sets and
  cache for the next iteration.
\<close>

datatype 'a outcome = Return bool "(nat \<times> nat) set" | Continue 'a

type_synonym bfs = "nat list \<times> nat list \<times> nat set \<times> nat set \<times> (nat \<times> nat) set"

definition bfsIteration ::
  "(nat \<times> nat \<times> EdgeType) list \<Rightarrow> nat \<Rightarrow> nat \<Rightarrow> bfs \<Rightarrow> bfs outcome" where
  "bfsIteration es start end st =
     (case st of (forwardQueue, reverseQueue, forwardVisited, reverseVisited, cache) \<Rightarrow>
        (case (if forwardQueue \<noteq> [] then
                 (let v = hd forwardQueue; forwardQueue = tl forwardQueue in
                  if v = end \<or> v \<in> reverseVisited then Return True cache
                  else (case visitForward start (adjacent_vertices v es)
                               (forwardQueue, forwardVisited, cache) of
                          (forwardQueue, forwardVisited, cache) \<Rightarrow>
                            Continue (forwardQueue, reverseQueue, forwardVisited,
                                      reverseVisited, cache)))
               else Continue st) of
           Return b c \<Rightarrow> Return b c
         | Continue (forwardQueue, reverseQueue, forwardVisited, reverseVisited, cache) \<Rightarrow>
             (if reverseQueue \<noteq> [] then
                (let v = hd reverseQueue; reverseQueue = tl reverseQueue in
                 if v = start \<or> v \<in> forwardVisited then Return True cache
                 else (case visitReverse end (inv_adjacent_vertices v es)
                              (reverseQueue, reverseVisited, cache) of
                         (reverseQueue, reverseVisited, cache) \<Rightarrow>
                           Continue (forwardQueue, reverseQueue, forwardVisited,
                                     reverseVisited, cache)))
              else Continue (forwardQueue, reverseQueue, forwardVisited, reverseVisited,
                             cache))))"

text \<open>
  The loop ends: every iteration that continues dequeues a vertex, and a vertex is
  queued at most once in each direction.
\<close>

definition endpoints :: "(nat \<times> nat \<times> EdgeType) list \<Rightarrow> nat set" where
  "endpoints es = fst ` set es \<union> (fst \<circ> snd) ` set es"

definition bfsMeasure :: "(nat \<times> nat \<times> EdgeType) list \<Rightarrow> bfs \<Rightarrow> nat" where
  "bfsMeasure es st =
     (case st of (fq, rq, fv, rv, cache) \<Rightarrow>
        2 * card (endpoints es - fv) + length fq + 2 * card (endpoints es - rv) + length rq)"

lemma finite_endpoints: "finite (endpoints es)"
  by (simp add: endpoints_def)

lemma adjacent_in_endpoints: "set (adjacent_vertices v es) \<subseteq> endpoints es"
  by (auto simp add: adjacent_vertices_def endpoints_def)

lemma inv_adjacent_in_endpoints: "set (inv_adjacent_vertices v es) \<subseteq> endpoints es"
  by (auto simp add: inv_adjacent_vertices_def endpoints_def)

lemma card_Diff_insert_new:
  assumes "finite U" "a \<in> U" "a \<notin> V"
  shows "Suc (card (U - insert a V)) = card (U - V)"
proof -
  have "Suc (card ((U - V) - {a})) = card (U - V)"
    by (rule card_Suc_Diff1) (use assms in auto)
  moreover have "U - insert a V = (U - V) - {a}" by auto
  ultimately show ?thesis by simp
qed

lemma visitForward_measure:
  "set as \<subseteq> U \<Longrightarrow> finite U \<Longrightarrow> visitForward start as (q, vis, c) = (q', vis', c') \<Longrightarrow>
     2 * card (U - vis') + length q' \<le> 2 * card (U - vis) + length q"
proof (induction as arbitrary: q vis c)
  case Nil
  then show ?case by simp
next
  case (Cons a as)
  show ?case
  proof (cases "a \<in> vis")
    case True
    with Cons show ?thesis by simp
  next
    case False
    with Cons.prems have
      "visitForward start as (q @ [a], insert a vis, insert (start, a) c) = (q', vis', c')"
      by simp
    from Cons.IH [OF _ Cons.prems(2) this] Cons.prems(1)
    have "2 * card (U - vis') + length q' \<le> 2 * card (U - insert a vis) + length (q @ [a])"
      by simp
    moreover from card_Diff_insert_new [OF Cons.prems(2) _ False] Cons.prems(1)
    have "Suc (card (U - insert a vis)) = card (U - vis)" by simp
    ultimately show ?thesis by simp
  qed
qed

lemma visitReverse_measure:
  "set as \<subseteq> U \<Longrightarrow> finite U \<Longrightarrow> visitReverse end as (q, vis, c) = (q', vis', c') \<Longrightarrow>
     2 * card (U - vis') + length q' \<le> 2 * card (U - vis) + length q"
proof (induction as arbitrary: q vis c)
  case Nil
  then show ?case by simp
next
  case (Cons a as)
  show ?case
  proof (cases "a \<in> vis")
    case True
    with Cons show ?thesis by simp
  next
    case False
    with Cons.prems have
      "visitReverse end as (q @ [a], insert a vis, insert (a, end) c) = (q', vis', c')"
      by simp
    from Cons.IH [OF _ Cons.prems(2) this] Cons.prems(1)
    have "2 * card (U - vis') + length q' \<le> 2 * card (U - insert a vis) + length (q @ [a])"
      by simp
    moreover from card_Diff_insert_new [OF Cons.prems(2) _ False] Cons.prems(1)
    have "Suc (card (U - insert a vis)) = card (U - vis)" by simp
    ultimately show ?thesis by simp
  qed
qed

lemma bfsIteration_decreases:
  assumes "bfsIteration es start end (fq, rq, fv, rv, c) = Continue st'"
    and "fq \<noteq> []"
  shows "bfsMeasure es st' < bfsMeasure es (fq, rq, fv, rv, c)"
proof -
  obtain fq1 fv1 c1 where f: "visitForward start (adjacent_vertices (hd fq) es) (tl fq, fv, c) = (fq1, fv1, c1)"
    by (metis prod_cases3)
  from visitForward_measure [OF adjacent_in_endpoints finite_endpoints f]
  have m1: "2 * card (endpoints es - fv1) + length fq1 \<le> 2 * card (endpoints es - fv) + length (tl fq)" .
  have l: "length (tl fq) < length fq" using assms(2) by (cases fq) simp_all
  show ?thesis
  proof (cases "rq = []")
    case True
    with assms f have "st' = (fq1, rq, fv1, rv, c1)"
      by (auto simp add: bfsIteration_def Let_def split: if_splits)
    with m1 l show ?thesis by (simp add: bfsMeasure_def)
  next
    case False
    obtain rq1 rv1 c2 where r: "visitReverse end (inv_adjacent_vertices (hd rq) es) (tl rq, rv, c1) = (rq1, rv1, c2)"
      by (metis prod_cases3)
    from visitReverse_measure [OF inv_adjacent_in_endpoints finite_endpoints r]
    have m2: "2 * card (endpoints es - rv1) + length rq1 \<le> 2 * card (endpoints es - rv) + length (tl rq)" .
    have l2: "length (tl rq) < length rq" using False by (cases rq) simp_all
    from assms f r False have "st' = (fq1, rq1, fv1, rv1, c2)"
      by (auto simp add: bfsIteration_def Let_def split: if_splits)
    with m1 m2 l l2 show ?thesis by (simp add: bfsMeasure_def)
  qed
qed

function bfsLoop ::
  "(nat \<times> nat \<times> EdgeType) list \<Rightarrow> nat \<Rightarrow> nat \<Rightarrow> bfs \<Rightarrow> bool \<times> (nat \<times> nat) set" where
  "bfsLoop es start end (forwardQueue, reverseQueue, forwardVisited, reverseVisited, cache) =
     (if forwardQueue \<noteq> [] \<and> reverseQueue \<noteq> [] then
        (case bfsIteration es start end
                (forwardQueue, reverseQueue, forwardVisited, reverseVisited, cache) of
           Return b c \<Rightarrow> (b, c)
         | Continue st \<Rightarrow> bfsLoop es start end st)
      else (False, cache))"
  by pat_completeness auto
termination
  by (relation "measure (\<lambda>(es, start, end, st). bfsMeasure es st)")
     (auto dest: bfsIteration_decreases)

definition EdgeCreatesCycle :: "PluginSorter \<Rightarrow> nat \<Rightarrow> nat \<Rightarrow> bool \<times> PluginSorter" where
  "EdgeCreatesCycle s fromVertex toVertex =
     (if (toVertex, fromVertex) \<in> pathsCache s then (True, s)
      else (let start = toVertex; end = fromVertex in
            case bfsLoop (graphEdges s) start end ([start], [end], {start}, {end}, pathsCache s) of
              (b, cache) \<Rightarrow> (b, s\<lparr> pathsCache := cache \<rparr>)))"


declare bfsLoop.simps [simp del]


subsection \<open>Edge-adding phases\<close>

text \<open>
  What \<open>AddHardcodedPluginEdges\<close> reads of the game: its type, the load order reader,
  and the file system below the data path (\<open>canonicalPath\<close> is
  \<open>std::filesystem::canonical(DataPath() / u8path(name))\<close>, \<open>None\<close> when it throws;
  \<open>existsOnDisk\<close> is \<open>std::filesystem::exists\<close> of the same path).
\<close>

record Game =
  gameKind :: GameType
  gameLoadOrderHandler :: LoadOrderHandler
  canonicalPath :: "string \<Rightarrow> string option"
  existsOnDisk :: "string \<Rightarrow> bool"

fun hardcodedEdgesTo ::
  "Game \<Rightarrow> string set \<Rightarrow> nat \<Rightarrow> (nat \<times> PluginSortingData) list \<Rightarrow> PluginSorter \<Rightarrow>
     error + PluginSorter" where
  "hardcodedEdgesTo game processedPluginPaths pluginVertex [] s = Inr s"
| "hardcodedEdgesTo game processedPluginPaths pluginVertex ((vit, graphPlugin) # rest) s =
     (let graphPluginPath = sortingName graphPlugin;
          graphPluginPath =
            (if \<not> existsOnDisk game graphPluginPath then graphPluginPath @ ''.ghost''
             else graphPluginPath)
      in if \<not> existsOnDisk game graphPluginPath then
           hardcodedEdgesTo game processedPluginPaths pluginVertex rest s
         else (case canonicalPath game graphPluginPath of
                 None \<Rightarrow> Inl FilesystemError
               | Some c \<Rightarrow>
                   (if c \<notin> processedPluginPaths then
                      hardcodedEdgesTo game processedPluginPaths pluginVertex rest
                        (AddEdge s pluginVertex vit hardcoded)
                    else hardcodedEdgesTo game processedPluginPaths pluginVertex rest s)))"

definition hardcodedEdgesFrom ::
  "Game \<Rightarrow> string set \<Rightarrow> string \<Rightarrow> PluginSorter \<Rightarrow> error + PluginSorter" where
  "hardcodedEdgesFrom game processedPluginPaths plugin s =
     (case GetVertexByName s plugin of
        None \<Rightarrow> Inr s
      | Some pluginVertex \<Rightarrow>
          hardcodedEdgesTo game processedPluginPaths pluginVertex
            (enumerate 0 (graphVertices s)) s)"

fun hardcodedPlugins ::
  "Game \<Rightarrow> string list \<Rightarrow> string set \<Rightarrow> PluginSorter \<Rightarrow> error + PluginSorter" where
  "hardcodedPlugins game [] processedPluginPaths s = Inr s"
| "hardcodedPlugins game (plugin # rest) processedPluginPaths s =
     (case canonicalPath game plugin of
        None \<Rightarrow> hardcodedPlugins game rest processedPluginPaths s
      | Some c \<Rightarrow>
          (let processedPluginPaths = insert c processedPluginPaths in
           if gameKind game = tes5 \<and> equivalent plugin ''update.esm'' then
             (if logger s then hardcodedPlugins game rest processedPluginPaths s
              else (case hardcodedEdgesFrom game processedPluginPaths plugin s of
                      Inl e \<Rightarrow> Inl e
                    | Inr s' \<Rightarrow> hardcodedPlugins game rest processedPluginPaths s'))
           else (case hardcodedEdgesFrom game processedPluginPaths plugin s of
                   Inl e \<Rightarrow> Inl e
                 | Inr s' \<Rightarrow> hardcodedPlugins game rest processedPluginPaths s')))"

definition AddHardcodedPluginEdges :: "Game \<Rightarrow> PluginSorter \<Rightarrow> error + PluginSorter" where
  "AddHardcodedPluginEdges game s =
     hardcodedPlugins game (implicitlyActivePlugins (gameLoadOrderHandler game)) {} s"

text \<open>
  \<open>std::string::substr\<close> on \<open>size_t\<close> positions: \<open>name.length() - 4\<close> wraps below
  zero, \<open>substr(pos, n)\<close> throws \<open>std::out_of_range\<close> when \<open>pos\<close> is past the end and
  otherwise takes at most \<open>n\<close> characters.
\<close>

definition sizeMinus4 :: "nat \<Rightarrow> nat" where
  "sizeMinus4 n = (if 4 \<le> n then n - 4 else n + 2 ^ 64 - 4)"

definition npos :: nat where
  "npos = 2 ^ 64 - 1"

definition substr :: "string \<Rightarrow> nat \<Rightarrow> nat \<Rightarrow> error + string" where
  "substr str pos n = (if length str < pos then Inl OutOfRange else Inr (take n (drop pos str)))"

definition ComparePlugins :: "PluginSortingData \<Rightarrow> PluginSortingData \<Rightarrow> error + int" where
  "ComparePlugins plugin1 plugin2 =
     (if loadOrderIndex plugin1 \<noteq> None \<and> loadOrderIndex plugin2 = None then Inr (-1)
      else if loadOrderIndex plugin1 = None \<and> loadOrderIndex plugin2 \<noteq> None then Inr 1
      else if loadOrderIndex plugin1 \<noteq> None \<and> loadOrderIndex plugin2 \<noteq> None then
        (if the (loadOrderIndex plugin1) < the (loadOrderIndex plugin2) then Inr (-1)
         else Inr 1)
      else
        (let name1 = sortingName plugin1; name2 = sortingName plugin2 in
         andThen (substr name1 0 (sizeMinus4 (length name1))) (\<lambda>basename1.
         andThen (substr name2 0 (sizeMinus4 (length name2))) (\<lambda>basename2.
         let result = CompareFilenames basename1 basename2 in
         if result \<noteq> 0 then Inr result
         else
           andThen (substr name1 (sizeMinus4 (length name1)) npos) (\<lambda>ext1.
           andThen (substr name2 (sizeMinus4 (length name2)) npos) (\<lambda>ext2.
           Inr (CompareFilenames ext1 ext2)))))))"

fun tieBreakWith :: "nat \<Rightarrow> nat list \<Rightarrow> PluginSorter \<Rightarrow> error + PluginSorter" where
  "tieBreakWith vertex [] s = Inr s"
| "tieBreakWith vertex (otherVertex # rest) s =
     (case ComparePlugins (graphVertices s ! vertex) (graphVertices s ! otherVertex) of
        Inl e \<Rightarrow> Inl e
      | Inr c \<Rightarrow>
          (let fromVertex = (if c < 0 then vertex else otherVertex);
               toVertex = (if c < 0 then otherVertex else vertex);
               r = EdgeCreatesCycle s fromVertex toVertex
           in tieBreakWith vertex rest
                (if \<not> fst r then AddEdge (snd r) fromVertex toVertex tieBreak else snd r)))"

fun tieBreakFrom :: "nat list \<Rightarrow> PluginSorter \<Rightarrow> error + PluginSorter" where
  "tieBreakFrom [] s = Inr s"
| "tieBreakFrom (vertex # rest) s =
     (case tieBreakWith vertex rest s of
        Inl e \<Rightarrow> Inl e
      | Inr s' \<Rightarrow> tieBreakFrom rest s')"

definition AddTieBreakEdges :: "PluginSorter \<Rightarrow> error + PluginSorter" where
  "AddTieBreakEdges s = tieBreakFrom [0 ..< length (graphVertices s)] s"

text \<open>
  \<open>AddSpecificEdges\<close>: the inner loop over the vertices from \<open>vit\<close> on, and the loops
  over the names of masters, requirements and load-after files.
\<close>

fun masterFlagEdges :: "nat \<Rightarrow> nat list \<Rightarrow> PluginSorter \<Rightarrow> PluginSorter" where
  "masterFlagEdges vit [] s = s"
| "masterFlagEdges vit (vit2 # rest) s =
     (if isMaster (graphVertices s ! vit) = isMaster (graphVertices s ! vit2) then
        masterFlagEdges vit rest s
      else
        (let parentVertex = (if isMaster (graphVertices s ! vit2) then vit2 else vit);
             vertex = (if isMaster (graphVertices s ! vit2) then vit else vit2)
         in masterFlagEdges vit rest (AddEdge s parentVertex vertex masterFlag)))"

fun edgesFromNames :: "nat \<Rightarrow> EdgeType \<Rightarrow> string list \<Rightarrow> PluginSorter \<Rightarrow> PluginSorter" where
  "edgesFromNames vit edgeType [] s = s"
| "edgesFromNames vit edgeType (name # rest) s =
     (case GetVertexByName s name of
        Some parentVertex \<Rightarrow> edgesFromNames vit edgeType rest (AddEdge s parentVertex vit edgeType)
      | None \<Rightarrow> edgesFromNames vit edgeType rest s)"

fun specificEdges :: "nat list \<Rightarrow> PluginSorter \<Rightarrow> PluginSorter" where
  "specificEdges [] s = s"
| "specificEdges (vit # rest) s =
     (let s = masterFlagEdges vit (vit # rest) s;
          plugin = graphVertices s ! vit;
          s = edgesFromNames vit master (masters plugin) s;
          s = edgesFromNames vit masterlistRequirement
                (map fileName (masterlistRequirements plugin)) s;
          s = edgesFromNames vit userRequirement (map fileName (userRequirements plugin)) s;
          s = edgesFromNames vit masterlistLoadAfter
                (map fileName (masterlistLoadAfterFiles plugin)) s;
          s = edgesFromNames vit userLoadAfter (map fileName (userLoadAfterFiles plugin)) s
      in specificEdges rest s)"

definition AddSpecificEdges :: "PluginSorter \<Rightarrow> PluginSorter" where
  "AddSpecificEdges s = specificEdges [0 ..< length (graphVertices s)] s"

text \<open>
  \<open>AddOverlapEdges\<close>. \<open>PluginSortingData::DoFormIDsOverlap\<close> is not part of the modelled
  code and is a parameter.
\<close>

fun overlapEdgesWith ::
  "(PluginSortingData \<Rightarrow> PluginSortingData \<Rightarrow> bool) \<Rightarrow> nat \<Rightarrow> nat list \<Rightarrow> PluginSorter \<Rightarrow>
     PluginSorter" where
  "overlapEdgesWith DoFormIDsOverlap vertex [] s = s"
| "overlapEdgesWith DoFormIDsOverlap vertex (otherVertex # rest) s =
     (let plugin = graphVertices s ! vertex; other = graphVertices s ! otherVertex in
      if vertex = otherVertex \<or> edgeExists s vertex otherVertex \<or>
         edgeExists s otherVertex vertex \<or>
         numOverrideFormIDs plugin = numOverrideFormIDs other \<or>
         \<not> DoFormIDsOverlap plugin other
      then overlapEdgesWith DoFormIDsOverlap vertex rest s
      else
        (let fromVertex =
               (if numOverrideFormIDs other < numOverrideFormIDs plugin then vertex
                else otherVertex);
             toVertex =
               (if numOverrideFormIDs other < numOverrideFormIDs plugin then otherVertex
                else vertex);
             r = EdgeCreatesCycle s fromVertex toVertex
         in overlapEdgesWith DoFormIDsOverlap vertex rest
              (if \<not> fst r then AddEdge (snd r) fromVertex toVertex overlap else snd r)))"

fun overlapEdgesFrom ::
  "(PluginSortingData \<Rightarrow> PluginSortingData \<Rightarrow> bool) \<Rightarrow> nat list \<Rightarrow> PluginSorter \<Rightarrow>
     PluginSorter" where
  "overlapEdgesFrom DoFormIDsOverlap [] s = s"
| "overlapEdgesFrom DoFormIDsOverlap (vertex # rest) s =
     (if numOverrideFormIDs (graphVertices s ! vertex) = 0 then
        overlapEdgesFrom DoFormIDsOverlap rest s
      else overlapEdgesFrom DoFormIDsOverlap rest
             (overlapEdgesWith DoFormIDsOverlap vertex rest s))"

definition AddOverlapEdges ::
  "(PluginSortingData \<Rightarrow> PluginSortingData \<Rightarrow> bool) \<Rightarrow> PluginSorter \<Rightarrow> PluginSorter" where
  "AddOverlapEdges DoFormIDsOverlap s =
     overlapEdgesFrom DoFormIDsOverlap [0 ..< length (graphVertices s)] s"

text \<open>
  The helpers of \<open>AddGroupEdges\<close>. The map from a group to the plugins to ignore for it
  is a function to sets, empty where the source's map has no entry. \<open>groups.find\<close>
  looks a group up by name; dereferencing its result when no group has the name is
  modelled as \<open>NullDereference\<close>.
\<close>

definition findGroup :: "Group list \<Rightarrow> string \<Rightarrow> Group option" where
  "findGroup gs name = find (\<lambda>g. groupName g = name) gs"

definition shouldIgnorePlugin :: "string \<Rightarrow> string \<Rightarrow> (string \<Rightarrow> string set) \<Rightarrow> bool" where
  "shouldIgnorePlugin grp pluginName' groupPluginsToIgnore =
     (pluginName' \<in> groupPluginsToIgnore grp)"

definition shouldIgnoreGroupEdge ::
  "PluginSortingData \<Rightarrow> PluginSortingData \<Rightarrow> (string \<Rightarrow> string set) \<Rightarrow> bool" where
  "shouldIgnoreGroupEdge fromPlugin toPlugin groupPluginsToIgnore =
     (shouldIgnorePlugin (sortingGroup fromPlugin) (sortingName toPlugin) groupPluginsToIgnore \<or>
      shouldIgnorePlugin (sortingGroup toPlugin) (sortingName fromPlugin) groupPluginsToIgnore)"

definition ignorePlugin ::
  "string \<Rightarrow> string set \<Rightarrow> (string \<Rightarrow> string set) \<Rightarrow> (string \<Rightarrow> string set)" where
  "ignorePlugin pluginName' grps groupPluginsToIgnore =
     (\<lambda>g. if g \<in> grps then insert pluginName' (groupPluginsToIgnore g)
          else groupPluginsToIgnore g)"

text \<open>
  \<open>pathfinder\<close> recurses through the after-groups with no check for a group met
  before, so it returns only when the groups it reaches have no cycle. The model runs
  it on fuel, one unit for each level of the recursion: \<open>None\<close> says the fuel ran out
  before the call returned.
\<close>

fun pathfinder ::
    "nat \<Rightarrow> Group \<Rightarrow> string \<Rightarrow> Group list \<Rightarrow> string set \<Rightarrow> (error + string set) option"
  and pathfinderAfter ::
    "nat \<Rightarrow> string list \<Rightarrow> string \<Rightarrow> Group list \<Rightarrow> string set \<Rightarrow> string set \<Rightarrow>
       (error + string set) option"
  where
  "pathfinder 0 grp targetGroupName gs visitedGroups = None"
| "pathfinder (Suc fuel) grp targetGroupName gs visitedGroups =
     (if groupName grp = targetGroupName then Some (Inr visitedGroups)
      else if afterGroups grp = [] then Some (Inr {})
      else
        (let visitedGroups = insert (groupName grp) visitedGroups in
         case pathfinderAfter fuel (afterGroups grp) targetGroupName gs visitedGroups {} of
           None \<Rightarrow> None
         | Some (Inl e) \<Rightarrow> Some (Inl e)
         | Some (Inr mergedVisitedGroups) \<Rightarrow>
             (if mergedVisitedGroups = {} then Some (Inr mergedVisitedGroups)
              else Some (Inr (visitedGroups \<union> mergedVisitedGroups)))))"
| "pathfinderAfter fuel [] targetGroupName gs visitedGroups mergedVisitedGroups =
     Some (Inr mergedVisitedGroups)"
| "pathfinderAfter fuel (afterGroupName # rest) targetGroupName gs visitedGroups
       mergedVisitedGroups =
     (case findGroup gs afterGroupName of
        None \<Rightarrow> Some (Inl NullDereference)
      | Some afterGroup \<Rightarrow>
          (case pathfinder fuel afterGroup targetGroupName gs visitedGroups of
             None \<Rightarrow> None
           | Some (Inl e) \<Rightarrow> Some (Inl e)
           | Some (Inr recursedVisitedGroups) \<Rightarrow>
               pathfinderAfter fuel rest targetGroupName gs visitedGroups
                 (mergedVisitedGroups \<union> recursedVisitedGroups)))"

definition getGroupsInPaths ::
  "nat \<Rightarrow> Group list \<Rightarrow> string \<Rightarrow> string \<Rightarrow> (error + string set) option" where
  "getGroupsInPaths fuel gs firstGroupName lastGroupName =
     (case findGroup gs lastGroupName of
        None \<Rightarrow> Some (Inl NullDereference)
      | Some lastGroup \<Rightarrow>
          (case pathfinder fuel lastGroup firstGroupName gs {} of
             None \<Rightarrow> None
           | Some (Inl e) \<Rightarrow> Some (Inl e)
           | Some (Inr groupsInPaths) \<Rightarrow> Some (Inr (groupsInPaths - {lastGroupName}))))"

text \<open>
  \<open>AddGroupEdges\<close>: the scan that collects the pairs to link and the plugins to
  ignore, then the loop that adds the edges. The name of the default group
  (\<open>Group().GetName()\<close>) is a parameter.
\<close>

type_synonym groupScan = "PluginSorter \<times> (nat \<times> nat) list \<times> (string \<Rightarrow> string set)"

fun groupEdgeScan ::
  "nat \<Rightarrow> string \<Rightarrow> nat \<Rightarrow> string list \<Rightarrow> groupScan \<Rightarrow> (error + groupScan) option" where
  "groupEdgeScan fuel defaultGroup vertex [] st = Some (Inr st)"
| "groupEdgeScan fuel defaultGroup vertex (pluginName' # rest)
       (s, acyclicEdgePairs, groupPluginsToIgnore) =
     (case GetVertexByName s pluginName' of
        None \<Rightarrow>
          groupEdgeScan fuel defaultGroup vertex rest (s, acyclicEdgePairs, groupPluginsToIgnore)
      | Some parentVertex \<Rightarrow>
          (let r = EdgeCreatesCycle s parentVertex vertex; s = snd r in
           if fst r then
             (let fromPlugin = graphVertices s ! parentVertex;
                  toPlugin = graphVertices s ! vertex
              in if \<not> isMaster fromPlugin \<and> isMaster toPlugin then
                   groupEdgeScan fuel defaultGroup vertex rest
                     (s, acyclicEdgePairs, groupPluginsToIgnore)
                 else
                   (case (if sortingGroup toPlugin = defaultGroup then
                            Some (sortingName toPlugin)
                          else if sortingGroup fromPlugin = defaultGroup then
                            Some (sortingName fromPlugin)
                          else None) of
                      None \<Rightarrow>
                        groupEdgeScan fuel defaultGroup vertex rest
                          (s, acyclicEdgePairs, groupPluginsToIgnore)
                    | Some pluginToIgnore \<Rightarrow>
                        (case getGroupsInPaths fuel (sorterGroups s) (sortingGroup fromPlugin)
                                (sortingGroup toPlugin) of
                           None \<Rightarrow> None
                         | Some (Inl e) \<Rightarrow> Some (Inl e)
                         | Some (Inr groupsInPaths) \<Rightarrow>
                             groupEdgeScan fuel defaultGroup vertex rest
                               (s, acyclicEdgePairs,
                                ignorePlugin pluginToIgnore groupsInPaths
                                  groupPluginsToIgnore))))
           else groupEdgeScan fuel defaultGroup vertex rest
                  (s, acyclicEdgePairs @ [(parentVertex, vertex)], groupPluginsToIgnore)))"

fun groupEdgeScans ::
  "nat \<Rightarrow> string \<Rightarrow> nat list \<Rightarrow> groupScan \<Rightarrow> (error + groupScan) option" where
  "groupEdgeScans fuel defaultGroup [] st = Some (Inr st)"
| "groupEdgeScans fuel defaultGroup (vertex # rest) (s, acyclicEdgePairs, groupPluginsToIgnore) =
     (case groupEdgeScan fuel defaultGroup vertex (afterGroupPlugins (graphVertices s ! vertex))
             (s, acyclicEdgePairs, groupPluginsToIgnore) of
        None \<Rightarrow> None
      | Some (Inl e) \<Rightarrow> Some (Inl e)
      | Some (Inr st) \<Rightarrow> groupEdgeScans fuel defaultGroup rest st)"

fun groupEdgesFor ::
  "(string \<Rightarrow> string set) \<Rightarrow> (nat \<times> nat) list \<Rightarrow> PluginSorter \<Rightarrow> PluginSorter" where
  "groupEdgesFor groupPluginsToIgnore [] s = s"
| "groupEdgesFor groupPluginsToIgnore (edgePair # rest) s =
     (let fromPlugin = graphVertices s ! fst edgePair;
          toPlugin = graphVertices s ! snd edgePair;
          ignore = shouldIgnoreGroupEdge fromPlugin toPlugin groupPluginsToIgnore
      in groupEdgesFor groupPluginsToIgnore rest
           (if \<not> ignore then AddEdge s (fst edgePair) (snd edgePair) group else s))"

definition AddGroupEdges :: "nat \<Rightarrow> string \<Rightarrow> PluginSorter \<Rightarrow> (error + PluginSorter) option" where
  "AddGroupEdges fuel defaultGroup s =
     (case groupEdgeScans fuel defaultGroup [0 ..< length (graphVertices s)] (s, [], \<lambda>g. {}) of
        None \<Rightarrow> None
      | Some (Inl e) \<Rightarrow> Some (Inl e)
      | Some (Inr (s, acyclicEdgePairs, groupPluginsToIgnore)) \<Rightarrow>
          Some (Inr (groupEdgesFor groupPluginsToIgnore acyclicEdgePairs s)))"

text \<open>
  The graph and the paths cache are written by \<open>AddEdge\<close> and \<open>EdgeCreatesCycle\<close>
  only, so what a phase does to them is a sequence of these two operations.
\<close>

datatype graphOp = OpAddEdge nat nat EdgeType | OpEdgeCreatesCycle nat nat

fun applyOp :: "PluginSorter \<Rightarrow> graphOp \<Rightarrow> PluginSorter" where
  "applyOp s (OpAddEdge fromVertex toVertex edgeType) = AddEdge s fromVertex toVertex edgeType"
| "applyOp s (OpEdgeCreatesCycle fromVertex toVertex) = snd (EdgeCreatesCycle s fromVertex toVertex)"

definition applyOps :: "PluginSorter \<Rightarrow> graphOp list \<Rightarrow> PluginSorter" where
  "applyOps s ops = foldl applyOp s ops"

definition cacheSound :: "PluginSorter \<Rightarrow> bool" where
  "cacheSound s = (pathsCache s \<subseteq> (edgeRel (graphEdges s))\<^sup>+)"

subsection \<open>Instances\<close>

text \<open>
  Skyrim with \<open>Skyrim.esm\<close> and \<open>Update.esm\<close> implicitly active, a further master
  \<open>Blank.esm\<close> and a ghosted \<open>Blank.esp\<close>. \<open>skyrimSorter\<close> holds three of the
  plugins and no edge yet. \<open>loadedSorter\<close> is the sorter as \<open>Sort\<close> has it after
  \<open>AddPluginVertices\<close>: the four plugins as vertices, all in the one group
  \<open>default\<close>, \<open>Blank.esm\<close> with \<open>Skyrim.esm\<close> as its only master, no edge and an
  empty paths cache.
\<close>

definition skyrimGame :: Game where
  "skyrimGame =
     \<lparr> gameKind = tes5,
       gameLoadOrderHandler = exampleLoadOrderHandler,
       canonicalPath =
         (\<lambda>f. if f = ''Skyrim.esm'' \<or> f = ''Update.esm'' \<or> f = ''Blank.esm'' \<or>
                 f = ''Blank.esp.ghost''
              then Some (''/data/'' @ f) else None),
       existsOnDisk =
         (\<lambda>f. f = ''Skyrim.esm'' \<or> f = ''Update.esm'' \<or> f = ''Blank.esm'' \<or>
              f = ''Blank.esp.ghost'') \<rparr>"

definition sortingData :: "string \<Rightarrow> bool \<Rightarrow> nat option \<Rightarrow> PluginSortingData" where
  "sortingData name isMasterFile index =
     \<lparr> sortingName = name, isMaster = isMasterFile, loadOrderIndex = index,
       sortingGroup = [], masters = [], masterlistRequirements = [], userRequirements = [],
       masterlistLoadAfterFiles = [], userLoadAfterFiles = [], afterGroupPlugins = [],
       numOverrideFormIDs = 0 \<rparr>"

definition skyrimSorter :: "bool \<Rightarrow> PluginSorter" where
  "skyrimSorter hasLogger =
     \<lparr> graphVertices =
         [sortingData ''Skyrim.esm'' True (Some 0),
          sortingData ''Update.esm'' True (Some 1),
          sortingData ''Blank.esp'' False None],
       graphEdges = [], pathsCache = {}, sorterGroups = [], logger = hasLogger \<rparr>"

definition loadedSorter :: "bool \<Rightarrow> PluginSorter" where
  "loadedSorter hasLogger =
     \<lparr> graphVertices =
         map (\<lambda>plugin. plugin\<lparr> sortingGroup := ''default'' \<rparr>)
           [sortingData ''Skyrim.esm'' True (Some 0),
            sortingData ''Update.esm'' True (Some 1),
            (sortingData ''Blank.esm'' True None)\<lparr> masters := [''Skyrim.esm''] \<rparr>,
            sortingData ''Blank.esp'' False None],
       graphEdges = [], pathsCache = {},
       sorterGroups = [\<lparr> groupName = ''default'', afterGroups = [] \<rparr>],
       logger = hasLogger \<rparr>"

subsection \<open>Properties of the file name comparison\<close>

lemma compareBytes_refl: "compareBytes a a = 0"
  by (induction a) simp_all

lemma compareBytes_eq: "compareBytes a b = 0 \<Longrightarrow> a = b"
  by (induction a b rule: compareBytes.induct) (auto split: if_splits)

lemma compareBytes_flip: "compareBytes b a = - compareBytes a b"
  by (induction a b rule: compareBytes.induct) auto

lemma compareBytes_Cons_neg:
  "(compareBytes (x # xs) (y # ys) < 0) =
     ((of_char x :: nat) < of_char y \<or> ((of_char x :: nat) = of_char y \<and> compareBytes xs ys < 0))"
  by auto

lemma compareBytes_trans:
  "compareBytes a b < 0 \<Longrightarrow> compareBytes b c < 0 \<Longrightarrow> compareBytes a c < 0"
proof (induction a arbitrary: b c)
  case Nil
  then show ?case by (cases b; cases c) simp_all
next
  case (Cons x xs)
  from Cons.prems(1) obtain y ys where b: "b = y # ys" by (cases b) simp_all
  from Cons.prems(2) b obtain z zs where c: "c = z # zs" by (cases c) simp_all
  from Cons.prems b c have
    1: "(of_char x :: nat) < of_char y \<or> ((of_char x :: nat) = of_char y \<and> compareBytes xs ys < 0)"
    and 2: "(of_char y :: nat) < of_char z \<or> ((of_char y :: nat) = of_char z \<and> compareBytes ys zs < 0)"
    by (simp_all only: compareBytes_Cons_neg)
  have "(of_char x :: nat) < of_char z \<or> ((of_char x :: nat) = of_char z \<and> compareBytes xs zs < 0)"
    using 1 2 Cons.IH [of ys zs] by auto
  then show ?case unfolding c by (simp only: compareBytes_Cons_neg)
qed

lemma CompareFilenames_zero: "(CompareFilenames a b = 0) = (to_lower a = to_lower b)"
proof
  assume "CompareFilenames a b = 0"
  then show "to_lower a = to_lower b"
    unfolding CompareFilenames_def by (rule compareBytes_eq)
next
  assume e: "to_lower a = to_lower b"
  show "CompareFilenames a b = 0"
    unfolding CompareFilenames_def e by (rule compareBytes_refl)
qed

lemma CompareFilenames_flip: "CompareFilenames b a = - CompareFilenames a b"
  unfolding CompareFilenames_def by (rule compareBytes_flip)

lemma CompareFilenames_trans:
  "CompareFilenames a b < 0 \<Longrightarrow> CompareFilenames b c < 0 \<Longrightarrow> CompareFilenames a c < 0"
  unfolding CompareFilenames_def by (rule compareBytes_trans)

lemma CompareFilenames_cong:
  assumes "CompareFilenames a b = 0"
  shows "CompareFilenames a c = CompareFilenames b c"
    and "CompareFilenames c a = CompareFilenames c b"
proof -
  from assms have e: "to_lower a = to_lower b" by (simp only: CompareFilenames_zero)
  show "CompareFilenames a c = CompareFilenames b c"
    unfolding CompareFilenames_def e ..
  show "CompareFilenames c a = CompareFilenames c b"
    unfolding CompareFilenames_def e ..
qed

subsection \<open>Soundness of the paths cache\<close>

lemma edgeRel_append: "edgeRel (es @ [(f, t, ty)]) = insert (f, t) (edgeRel es)"
  by (auto simp add: edgeRel_def)

lemma adjacent_edge: "a \<in> set (adjacent_vertices v es) \<Longrightarrow> (v, a) \<in> edgeRel es"
  by (force simp add: adjacent_vertices_def edgeRel_def)

lemma inv_adjacent_edge: "a \<in> set (inv_adjacent_vertices v es) \<Longrightarrow> (a, v) \<in> edgeRel es"
  by (force simp add: inv_adjacent_vertices_def edgeRel_def)

lemma visitForward_sound:
  assumes "(start, v) \<in> E\<^sup>*" and "\<forall>a \<in> set as. (v, a) \<in> E"
  shows "set q \<subseteq> vis \<Longrightarrow> \<forall>x \<in> vis. (start, x) \<in> E\<^sup>* \<Longrightarrow> c \<subseteq> E\<^sup>+ \<Longrightarrow>
         visitForward start as (q, vis, c) = (q', vis', c') \<Longrightarrow>
         set q' \<subseteq> vis' \<and> (\<forall>x \<in> vis'. (start, x) \<in> E\<^sup>*) \<and> c' \<subseteq> E\<^sup>+"
  using assms(2)
proof (induction as arbitrary: q vis c)
  case Nil
  then show ?case by simp
next
  case (Cons a as)
  from Cons.prems(5) have va: "(v, a) \<in> E" and rest: "\<forall>a \<in> set as. (v, a) \<in> E"
    by simp_all
  from assms(1) va have sa: "(start, a) \<in> E\<^sup>+" by (rule rtrancl_into_trancl1)
  show ?case
  proof (cases "a \<in> vis")
    case True
    with Cons.prems have "visitForward start as (q, vis, c) = (q', vis', c')" by simp
    from Cons.IH [OF Cons.prems(1) Cons.prems(2) Cons.prems(3) this rest] show ?thesis .
  next
    case False
    with Cons.prems have
      k: "visitForward start as (q @ [a], insert a vis, insert (start, a) c) = (q', vis', c')"
      by simp
    have 1: "set (q @ [a]) \<subseteq> insert a vis" using Cons.prems(1) by auto
    have 2: "\<forall>x \<in> insert a vis. (start, x) \<in> E\<^sup>*"
      using Cons.prems(2) sa by auto
    have 3: "insert (start, a) c \<subseteq> E\<^sup>+" using Cons.prems(3) sa by simp
    from Cons.IH [OF 1 2 3 k rest] show ?thesis .
  qed
qed

lemma visitReverse_sound:
  assumes "(v, end) \<in> E\<^sup>*" and "\<forall>a \<in> set as. (a, v) \<in> E"
  shows "set q \<subseteq> vis \<Longrightarrow> \<forall>x \<in> vis. (x, end) \<in> E\<^sup>* \<Longrightarrow> c \<subseteq> E\<^sup>+ \<Longrightarrow>
         visitReverse end as (q, vis, c) = (q', vis', c') \<Longrightarrow>
         set q' \<subseteq> vis' \<and> (\<forall>x \<in> vis'. (x, end) \<in> E\<^sup>*) \<and> c' \<subseteq> E\<^sup>+"
  using assms(2)
proof (induction as arbitrary: q vis c)
  case Nil
  then show ?case by simp
next
  case (Cons a as)
  from Cons.prems(5) have av: "(a, v) \<in> E" and rest: "\<forall>a \<in> set as. (a, v) \<in> E"
    by simp_all
  from av assms(1) have ae: "(a, end) \<in> E\<^sup>+" by (rule rtrancl_into_trancl2)
  show ?case
  proof (cases "a \<in> vis")
    case True
    with Cons.prems have "visitReverse end as (q, vis, c) = (q', vis', c')" by simp
    from Cons.IH [OF Cons.prems(1) Cons.prems(2) Cons.prems(3) this rest] show ?thesis .
  next
    case False
    with Cons.prems have
      k: "visitReverse end as (q @ [a], insert a vis, insert (a, end) c) = (q', vis', c')"
      by simp
    have 1: "set (q @ [a]) \<subseteq> insert a vis" using Cons.prems(1) by auto
    have 2: "\<forall>x \<in> insert a vis. (x, end) \<in> E\<^sup>*"
      using Cons.prems(2) ae by auto
    have 3: "insert (a, end) c \<subseteq> E\<^sup>+" using Cons.prems(3) ae by simp
    from Cons.IH [OF 1 2 3 k rest] show ?thesis .
  qed
qed

definition bfsInvariant :: "(nat \<times> nat) set \<Rightarrow> nat \<Rightarrow> nat \<Rightarrow> bfs \<Rightarrow> bool" where
  "bfsInvariant E start end st =
     (case st of (fq, rq, fv, rv, c) \<Rightarrow>
        set fq \<subseteq> fv \<and> set rq \<subseteq> rv \<and> (\<forall>x \<in> fv. (start, x) \<in> E\<^sup>*) \<and>
        (\<forall>x \<in> rv. (x, end) \<in> E\<^sup>*) \<and> c \<subseteq> E\<^sup>+)"


lemma bfsIteration_sound:
  assumes inv: "bfsInvariant (edgeRel es) start end (fq, rq, fv, rv, c)"
    and ne: "fq \<noteq> []" "rq \<noteq> []"
  shows "(\<forall>st'. bfsIteration es start end (fq, rq, fv, rv, c) = Continue st' \<longrightarrow>
            bfsInvariant (edgeRel es) start end st') \<and>
         (\<forall>b c'. bfsIteration es start end (fq, rq, fv, rv, c) = Return b c' \<longrightarrow>
            c' \<subseteq> (edgeRel es)\<^sup>+ \<and> (b \<longrightarrow> (start, end) \<in> (edgeRel es)\<^sup>*))"
proof -
  let ?E = "edgeRel es"
  from inv have fq: "set fq \<subseteq> fv" and rq: "set rq \<subseteq> rv"
    and fv: "\<forall>x \<in> fv. (start, x) \<in> ?E\<^sup>*" and rv: "\<forall>x \<in> rv. (x, end) \<in> ?E\<^sup>*"
    and c: "c \<subseteq> ?E\<^sup>+"
    by (simp_all add: bfsInvariant_def)
  from ne fq have hf: "hd fq \<in> fv" by (cases fq) auto
  from ne rq have hr: "hd rq \<in> rv" by (cases rq) auto
  from hf fv have sf: "(start, hd fq) \<in> ?E\<^sup>*" by blast
  from hr rv have re: "(hd rq, end) \<in> ?E\<^sup>*" by blast
  have tf: "set (tl fq) \<subseteq> fv" using fq ne by (cases fq) auto
  have tr: "set (tl rq) \<subseteq> rv" using rq ne by (cases rq) auto
  obtain fq1 fv1 c1 where
    f: "visitForward start (adjacent_vertices (hd fq) es) (tl fq, fv, c) = (fq1, fv1, c1)"
    by (metis prod_cases3)
  from visitForward_sound [OF sf _ tf fv c f] adjacent_edge
  have f1: "set fq1 \<subseteq> fv1" and fv1: "\<forall>x \<in> fv1. (start, x) \<in> ?E\<^sup>*" and c1: "c1 \<subseteq> ?E\<^sup>+"
    by blast+
  obtain rq1 rv1 c2 where
    r: "visitReverse end (inv_adjacent_vertices (hd rq) es) (tl rq, rv, c1) = (rq1, rv1, c2)"
    by (metis prod_cases3)
  from visitReverse_sound [OF re _ tr rv c1 r] inv_adjacent_edge
  have r1: "set rq1 \<subseteq> rv1" and rv1: "\<forall>x \<in> rv1. (x, end) \<in> ?E\<^sup>*" and c2: "c2 \<subseteq> ?E\<^sup>+"
    by blast+
  show ?thesis
  proof (cases "hd fq = end \<or> hd fq \<in> rv")
    case True
    then have "(start, end) \<in> ?E\<^sup>*"
      using sf rv by (auto intro: rtrancl_trans)
    with True ne c show ?thesis
      by (simp add: bfsIteration_def Let_def)
  next
    case notFound: False
    show ?thesis
    proof (cases "hd rq = start \<or> hd rq \<in> fv1")
      case True
      then have "(start, end) \<in> ?E\<^sup>*"
        using re fv1 by (auto intro: rtrancl_trans)
      with True notFound ne f c1 show ?thesis
        by (simp add: bfsIteration_def Let_def)
    next
      case False
      with notFound ne f r f1 fv1 r1 rv1 c2 show ?thesis
        by (simp add: bfsIteration_def Let_def bfsInvariant_def)
    qed
  qed
qed

lemma bfsLoop_sound:
  "bfsInvariant (edgeRel es) start end st \<Longrightarrow> bfsLoop es start end st = (b, c') \<Longrightarrow>
     c' \<subseteq> (edgeRel es)\<^sup>+ \<and> (b \<longrightarrow> (start, end) \<in> (edgeRel es)\<^sup>*)"
proof (induction es start "end" st rule: bfsLoop.induct)
  case (1 es start "end" fq rq fv rv c)
  show ?case
  proof (cases "fq \<noteq> [] \<and> rq \<noteq> []")
    case False
    with "1.prems" show ?thesis
      by (auto simp add: bfsLoop.simps bfsInvariant_def)
  next
    case True
    then have ne: "fq \<noteq> []" "rq \<noteq> []" by simp_all
    note it = bfsIteration_sound [OF "1.prems"(1) ne]
    show ?thesis
    proof (cases "bfsIteration es start end (fq, rq, fv, rv, c)")
      case (Return b' c'')
      with "1.prems"(2) True have "b = b'" "c' = c''" by (simp_all add: bfsLoop.simps)
      with it Return show ?thesis by simp
    next
      case (Continue st')
      with it have inv': "bfsInvariant (edgeRel es) start end st'" by simp
      from "1.prems"(2) True Continue have "bfsLoop es start end st' = (b, c')"
        by (simp add: bfsLoop.simps)
      from "1.IH" [OF True Continue inv' this] show ?thesis .
    qed
  qed
qed

lemma EdgeCreatesCycle_sound:
  assumes "cacheSound s"
  shows "cacheSound (snd (EdgeCreatesCycle s f t))"
    and "graphEdges (snd (EdgeCreatesCycle s f t)) = graphEdges s"
    and "graphVertices (snd (EdgeCreatesCycle s f t)) = graphVertices s"
    and "fst (EdgeCreatesCycle s f t) \<Longrightarrow> (t, f) \<in> (edgeRel (graphEdges s))\<^sup>*"
proof -
  obtain b c' where l: "bfsLoop (graphEdges s) t f ([t], [f], {t}, {f}, pathsCache s) = (b, c')"
    by (cases "bfsLoop (graphEdges s) t f ([t], [f], {t}, {f}, pathsCache s)")
  have "bfsInvariant (edgeRel (graphEdges s)) t f ([t], [f], {t}, {f}, pathsCache s)"
    using assms by (simp add: bfsInvariant_def cacheSound_def)
  from bfsLoop_sound [OF this l]
  have c': "c' \<subseteq> (edgeRel (graphEdges s))\<^sup>+"
    and b: "b \<longrightarrow> (t, f) \<in> (edgeRel (graphEdges s))\<^sup>*"
    by simp_all
  show "cacheSound (snd (EdgeCreatesCycle s f t))"
    using assms l c' by (simp add: EdgeCreatesCycle_def Let_def cacheSound_def)
  show "graphEdges (snd (EdgeCreatesCycle s f t)) = graphEdges s"
    using l by (simp add: EdgeCreatesCycle_def Let_def)
  show "graphVertices (snd (EdgeCreatesCycle s f t)) = graphVertices s"
    using l by (simp add: EdgeCreatesCycle_def Let_def)
  show "fst (EdgeCreatesCycle s f t) \<Longrightarrow> (t, f) \<in> (edgeRel (graphEdges s))\<^sup>*"
    using assms l b
    by (auto simp add: EdgeCreatesCycle_def Let_def cacheSound_def split: if_splits)
qed

lemma AddEdge_sound:
  assumes "cacheSound s"
  shows "cacheSound (AddEdge s f t ty)"
proof (cases "(f, t) \<in> pathsCache s")
  case True
  with assms show ?thesis by (simp add: AddEdge_def)
next
  case False
  have "(edgeRel (graphEdges s))\<^sup>+ \<subseteq> (insert (f, t) (edgeRel (graphEdges s)))\<^sup>+"
    by (rule trancl_mono_subset) auto
  with assms False show ?thesis
    by (auto simp add: AddEdge_def cacheSound_def edgeRel_append)
qed

lemma AddEdge_edges: "set (graphEdges s) \<subseteq> set (graphEdges (AddEdge s f t ty))"
  by (auto simp add: AddEdge_def)

lemma applyOp_sound: "cacheSound s \<Longrightarrow> cacheSound (applyOp s op)"
  by (cases op) (simp_all add: AddEdge_sound EdgeCreatesCycle_sound(1))

lemma applyOp_edges: "cacheSound s \<Longrightarrow> set (graphEdges s) \<subseteq> set (graphEdges (applyOp s op))"
  by (cases op) (simp_all add: AddEdge_edges EdgeCreatesCycle_sound(2))

lemma applyOps_sound:
  "cacheSound s \<Longrightarrow>
     cacheSound (applyOps s ops) \<and> set (graphEdges s) \<subseteq> set (graphEdges (applyOps s ops))"
proof (induction ops arbitrary: s)
  case Nil
  then show ?case by (simp add: applyOps_def)
next
  case (Cons op ops)
  from Cons.IH [OF applyOp_sound [OF Cons.prems, of op]] applyOp_edges [OF Cons.prems, of op]
  show ?case by (auto simp add: applyOps_def)
qed


lemma applyOps_append: "applyOps (applyOps s a) b = applyOps s (a @ b)"
  by (simp add: applyOps_def)

lemma applyOps_Nil: "applyOps s [] = s"
  by (simp add: applyOps_def)

lemma hardcodedEdgesTo_ops:
  "hardcodedEdgesTo game p v vs s = Inr s' \<Longrightarrow> \<exists>ops. s' = applyOps s ops"
proof (induction vs arbitrary: s)
  case Nil
  then show ?case by (auto intro: exI [of _ "[]"] simp add: applyOps_Nil)
next
  case (Cons a vs)
  obtain vit graphPlugin where a: "a = (vit, graphPlugin)" by (cases a)
  from Cons.prems a consider
    "hardcodedEdgesTo game p v vs s = Inr s'"
    | "hardcodedEdgesTo game p v vs (AddEdge s v vit hardcoded) = Inr s'"
    by (auto simp add: Let_def split: if_splits option.splits)
  then show ?case
  proof cases
    case 1
    from Cons.IH [OF 1] show ?thesis .
  next
    case 2
    from Cons.IH [OF 2] obtain ops where "s' = applyOps (AddEdge s v vit hardcoded) ops" ..
    then have "s' = applyOps s (OpAddEdge v vit hardcoded # ops)"
      by (simp add: applyOps_def)
    then show ?thesis ..
  qed
qed

lemma hardcodedEdgesFrom_ops:
  "hardcodedEdgesFrom game p plugin s = Inr s' \<Longrightarrow> \<exists>ops. s' = applyOps s ops"
  by (auto simp add: hardcodedEdgesFrom_def split: option.splits
      dest: hardcodedEdgesTo_ops intro: exI [of _ "[]"] simp add: applyOps_Nil)

lemma hardcodedPlugins_ops:
  "hardcodedPlugins game ps p s = Inr s' \<Longrightarrow> \<exists>ops. s' = applyOps s ops"
proof (induction ps arbitrary: p s)
  case Nil
  then show ?case by (auto intro: exI [of _ "[]"] simp add: applyOps_Nil)
next
  case (Cons plugin ps)
  from Cons.prems consider p' where "hardcodedPlugins game ps p' s = Inr s'"
    | p' s1 where "hardcodedEdgesFrom game p' plugin s = Inr s1"
        "hardcodedPlugins game ps p' s1 = Inr s'"
    by (auto simp add: Let_def split: if_splits option.splits sum.splits)
  then show ?case
  proof cases
    case 1
    from Cons.IH [OF 1] show ?thesis .
  next
    case 2
    from hardcodedEdgesFrom_ops [OF 2(1)] obtain a where a: "s1 = applyOps s a" ..
    from Cons.IH [OF 2(2)] obtain b where "s' = applyOps s1 b" ..
    with a have "s' = applyOps s (a @ b)" by (simp add: applyOps_append)
    then show ?thesis ..
  qed
qed

lemma AddHardcodedPluginEdges_ops:
  "AddHardcodedPluginEdges game s = Inr s' \<Longrightarrow> \<exists>ops. s' = applyOps s ops"
  unfolding AddHardcodedPluginEdges_def by (rule hardcodedPlugins_ops)

lemma tieBreakWith_ops:
  "tieBreakWith v vs s = Inr s' \<Longrightarrow> \<exists>ops. s' = applyOps s ops"
proof (induction vs arbitrary: s)
  case Nil
  then show ?case by (auto intro: exI [of _ "[]"] simp add: applyOps_Nil)
next
  case (Cons w vs)
  from Cons.prems obtain c where
    c: "ComparePlugins (graphVertices s ! v) (graphVertices s ! w) = Inr c"
    by (auto split: sum.splits)
  define f where "f = (if c < 0 then v else w)"
  define t where "t = (if c < 0 then w else v)"
  define s1 where "s1 = (if \<not> fst (EdgeCreatesCycle s f t)
                          then AddEdge (snd (EdgeCreatesCycle s f t)) f t tieBreak
                          else snd (EdgeCreatesCycle s f t))"
  from Cons.prems c have k: "tieBreakWith v vs s1 = Inr s'"
    unfolding f_def t_def s1_def by (simp add: Let_def split: if_splits)
  have "\<exists>a. s1 = applyOps s a"
  proof (cases "fst (EdgeCreatesCycle s f t)")
    case True
    then have "s1 = applyOps s [OpEdgeCreatesCycle f t]"
      by (simp add: s1_def applyOps_def)
    then show ?thesis ..
  next
    case False
    then have "s1 = applyOps s [OpEdgeCreatesCycle f t, OpAddEdge f t tieBreak]"
      by (simp add: s1_def applyOps_def)
    then show ?thesis ..
  qed
  then obtain a where a: "s1 = applyOps s a" ..
  from Cons.IH [OF k] obtain b where "s' = applyOps s1 b" ..
  with a have "s' = applyOps s (a @ b)" by (simp add: applyOps_append)
  then show ?case ..
qed

lemma tieBreakFrom_ops:
  "tieBreakFrom vs s = Inr s' \<Longrightarrow> \<exists>ops. s' = applyOps s ops"
proof (induction vs arbitrary: s)
  case Nil
  then show ?case by (auto intro: exI [of _ "[]"] simp add: applyOps_Nil)
next
  case (Cons v vs)
  from Cons.prems obtain s1 where 1: "tieBreakWith v vs s = Inr s1"
    and 2: "tieBreakFrom vs s1 = Inr s'"
    by (auto split: sum.splits)
  from tieBreakWith_ops [OF 1] obtain a where a: "s1 = applyOps s a" ..
  from Cons.IH [OF 2] obtain b where "s' = applyOps s1 b" ..
  with a have "s' = applyOps s (a @ b)" by (simp add: applyOps_append)
  then show ?case ..
qed

lemma AddTieBreakEdges_ops:
  "AddTieBreakEdges s = Inr s' \<Longrightarrow> \<exists>ops. s' = applyOps s ops"
  unfolding AddTieBreakEdges_def by (rule tieBreakFrom_ops)


lemma ops_refl: "\<exists>ops. s = applyOps s ops"
  by (rule exI [of _ "[]"]) (simp add: applyOps_def)

lemma ops_AddEdge:
  "\<exists>ops. s' = applyOps (AddEdge s f t ty) ops \<Longrightarrow> \<exists>ops. s' = applyOps s ops"
proof -
  assume "\<exists>ops. s' = applyOps (AddEdge s f t ty) ops"
  then obtain ops where "s' = applyOps (AddEdge s f t ty) ops" ..
  then have "s' = applyOps s (OpAddEdge f t ty # ops)" by (simp add: applyOps_def)
  then show ?thesis ..
qed

lemma ops_EdgeCreatesCycle:
  "\<exists>ops. s' = applyOps (snd (EdgeCreatesCycle s f t)) ops \<Longrightarrow> \<exists>ops. s' = applyOps s ops"
proof -
  assume "\<exists>ops. s' = applyOps (snd (EdgeCreatesCycle s f t)) ops"
  then obtain ops where "s' = applyOps (snd (EdgeCreatesCycle s f t)) ops" ..
  then have "s' = applyOps s (OpEdgeCreatesCycle f t # ops)" by (simp add: applyOps_def)
  then show ?thesis ..
qed

lemma ops_trans:
  "\<exists>a. s1 = applyOps s a \<Longrightarrow> \<exists>b. s2 = applyOps s1 b \<Longrightarrow> \<exists>c. s2 = applyOps s c"
proof -
  assume "\<exists>a. s1 = applyOps s a" and "\<exists>b. s2 = applyOps s1 b"
  then obtain a b where "s1 = applyOps s a" "s2 = applyOps s1 b" by blast
  then have "s2 = applyOps s (a @ b)" by (simp add: applyOps_append)
  then show ?thesis ..
qed

lemma masterFlagEdges_ops: "\<exists>ops. masterFlagEdges vit vs s = applyOps s ops"
proof (induction vs arbitrary: s)
  case Nil
  show ?case by (simp add: ops_refl)
next
  case (Cons v vs)
  show ?case
    using Cons.IH [of s] ops_AddEdge [OF Cons.IH]
    by (simp add: Let_def)
qed

lemma edgesFromNames_ops: "\<exists>ops. edgesFromNames vit ty names s = applyOps s ops"
proof (induction names arbitrary: s)
  case Nil
  show ?case by (simp add: ops_refl)
next
  case (Cons n names)
  show ?case
    using Cons.IH [of s] ops_AddEdge [OF Cons.IH]
    by (simp split: option.splits)
qed

lemma specificEdges_ops: "\<exists>ops. specificEdges vs s = applyOps s ops"
proof (induction vs arbitrary: s)
  case Nil
  show ?case by (simp add: ops_refl)
next
  case (Cons v vs)
  define s0 where "s0 = masterFlagEdges v (v # vs) s"
  define plugin where "plugin = graphVertices s0 ! v"
  define s1 where "s1 = edgesFromNames v master (masters plugin) s0"
  define s2 where
    "s2 = edgesFromNames v masterlistRequirement (map fileName (masterlistRequirements plugin)) s1"
  define s3 where
    "s3 = edgesFromNames v userRequirement (map fileName (userRequirements plugin)) s2"
  define s4 where
    "s4 = edgesFromNames v masterlistLoadAfter (map fileName (masterlistLoadAfterFiles plugin)) s3"
  define s5 where
    "s5 = edgesFromNames v userLoadAfter (map fileName (userLoadAfterFiles plugin)) s4"
  have e: "specificEdges (v # vs) s = specificEdges vs s5"
    by (simp add: Let_def s0_def plugin_def s1_def s2_def s3_def s4_def s5_def)
  have 0: "\<exists>ops. s0 = applyOps s ops" unfolding s0_def by (rule masterFlagEdges_ops)
  have 1: "\<exists>ops. s1 = applyOps s0 ops" unfolding s1_def by (rule edgesFromNames_ops)
  have 2: "\<exists>ops. s2 = applyOps s1 ops" unfolding s2_def by (rule edgesFromNames_ops)
  have 3: "\<exists>ops. s3 = applyOps s2 ops" unfolding s3_def by (rule edgesFromNames_ops)
  have 4: "\<exists>ops. s4 = applyOps s3 ops" unfolding s4_def by (rule edgesFromNames_ops)
  have 5: "\<exists>ops. s5 = applyOps s4 ops" unfolding s5_def by (rule edgesFromNames_ops)
  have 6: "\<exists>ops. specificEdges vs s5 = applyOps s5 ops" by (rule Cons.IH)
  from ops_trans [OF ops_trans [OF ops_trans [OF ops_trans [OF ops_trans [OF ops_trans
    [OF 0 1] 2] 3] 4] 5] 6]
  show ?case unfolding e .
qed

lemma AddSpecificEdges_ops: "\<exists>ops. AddSpecificEdges s = applyOps s ops"
  unfolding AddSpecificEdges_def by (rule specificEdges_ops)

lemma overlapEdgesWith_ops: "\<exists>ops. overlapEdgesWith ov v vs s = applyOps s ops"
proof (induction vs arbitrary: s)
  case Nil
  show ?case by (simp add: ops_refl)
next
  case (Cons w vs)
  show ?case
    using Cons.IH [of s] ops_EdgeCreatesCycle [OF Cons.IH]
      ops_EdgeCreatesCycle [OF ops_AddEdge [OF Cons.IH]]
    by (simp add: Let_def)
qed

lemma overlapEdgesFrom_ops: "\<exists>ops. overlapEdgesFrom ov vs s = applyOps s ops"
proof (induction vs arbitrary: s)
  case Nil
  show ?case by (simp add: ops_refl)
next
  case (Cons v vs)
  show ?case
    using Cons.IH [of s] ops_trans [OF overlapEdgesWith_ops Cons.IH]
    by simp
qed

lemma AddOverlapEdges_ops: "\<exists>ops. AddOverlapEdges ov s = applyOps s ops"
  unfolding AddOverlapEdges_def by (rule overlapEdgesFrom_ops)

lemma groupEdgeScan_ops:
  "groupEdgeScan fuel dg v names (s, pairs, m) = Some (Inr (s', pairs', m')) \<Longrightarrow>
     \<exists>ops. s' = applyOps s ops"
proof (induction names arbitrary: s pairs m)
  case Nil
  then show ?case by (simp add: ops_refl)
next
  case (Cons n names)
  show ?case
  proof (cases "GetVertexByName s n")
    case None
    with Cons.prems Cons.IH show ?thesis by simp
  next
    case (Some pv)
    from Cons.prems Some obtain pairs1 m1 where
      "groupEdgeScan fuel dg v names (snd (EdgeCreatesCycle s pv v), pairs1, m1) =
         Some (Inr (s', pairs', m'))"
      by (auto simp add: Let_def split: if_splits option.splits sum.splits)
    from ops_EdgeCreatesCycle [OF Cons.IH [OF this]] show ?thesis .
  qed
qed

lemma groupEdgeScans_ops:
  "groupEdgeScans fuel dg vs (s, pairs, m) = Some (Inr (s', pairs', m')) \<Longrightarrow>
     \<exists>ops. s' = applyOps s ops"
proof (induction vs arbitrary: s pairs m)
  case Nil
  then show ?case by (simp add: ops_refl)
next
  case (Cons v vs)
  from Cons.prems obtain s1 pairs1 m1 where
    1: "groupEdgeScan fuel dg v (afterGroupPlugins (graphVertices s ! v)) (s, pairs, m) =
          Some (Inr (s1, pairs1, m1))"
    and 2: "groupEdgeScans fuel dg vs (s1, pairs1, m1) = Some (Inr (s', pairs', m'))"
    by (auto split: option.splits sum.splits)
  from ops_trans [OF groupEdgeScan_ops [OF 1] Cons.IH [OF 2]] show ?case .
qed

lemma groupEdgesFor_ops: "\<exists>ops. groupEdgesFor m pairs s = applyOps s ops"
proof (induction pairs arbitrary: s)
  case Nil
  show ?case by (simp add: ops_refl)
next
  case (Cons p pairs)
  show ?case
    using Cons.IH [of s] ops_AddEdge [OF Cons.IH]
    by (simp add: Let_def)
qed

lemma AddGroupEdges_ops:
  "AddGroupEdges fuel dg s = Some (Inr s') \<Longrightarrow> \<exists>ops. s' = applyOps s ops"
proof -
  assume "AddGroupEdges fuel dg s = Some (Inr s')"
  then obtain s1 pairs m where
    1: "groupEdgeScans fuel dg [0 ..< length (graphVertices s)] (s, [], \<lambda>g. {}) =
          Some (Inr (s1, pairs, m))"
    and 2: "s' = groupEdgesFor m pairs s1"
    by (auto simp add: AddGroupEdges_def split: option.splits sum.splits)
  from ops_trans [OF groupEdgeScans_ops [OF 1] groupEdgesFor_ops [of m pairs s1]] 2
  show ?thesis by simp
qed

text \<open>
  C10. The paths cache is sound: every pair in it is joined by a directed path of the
  graph. The cleared sorter is sound; \<open>AddEdge\<close> and \<open>EdgeCreatesCycle\<close> keep the cache
  sound and remove no edge, and so does every sequence of the two, which is what a
  phase does to the graph and the cache. So when \<open>EdgeCreatesCycle(from, to)\<close> answers
  true from the cache, \<open>to\<close> reaches \<open>from\<close>; the same holds when the search answers
  true.
\<close>

theorem pathsCache_sound_throughout:
  assumes "cacheSound s"
  shows "cacheSound (AddEdge s f t ty) \<and>
         set (graphEdges s) \<subseteq> set (graphEdges (AddEdge s f t ty)) \<and>
         cacheSound (snd (EdgeCreatesCycle s f t)) \<and>
         graphEdges (snd (EdgeCreatesCycle s f t)) = graphEdges s \<and>
         ((t, f) \<in> pathsCache s \<longrightarrow>
            fst (EdgeCreatesCycle s f t) \<and> (t, f) \<in> (edgeRel (graphEdges s))\<^sup>+) \<and>
         (fst (EdgeCreatesCycle s f t) \<longrightarrow> (t, f) \<in> (edgeRel (graphEdges s))\<^sup>*) \<and>
         (\<forall>ops. cacheSound (applyOps s ops) \<and>
                set (graphEdges s) \<subseteq> set (graphEdges (applyOps s ops))) \<and>
         cacheSound (s\<lparr> graphEdges := [], pathsCache := {} \<rparr>)"
proof -
  have hit: "(t, f) \<in> pathsCache s \<longrightarrow>
            fst (EdgeCreatesCycle s f t) \<and> (t, f) \<in> (edgeRel (graphEdges s))\<^sup>+"
    using assms by (auto simp add: EdgeCreatesCycle_def cacheSound_def)
  have bfs: "fst (EdgeCreatesCycle s f t) \<longrightarrow> (t, f) \<in> (edgeRel (graphEdges s))\<^sup>*"
    using EdgeCreatesCycle_sound(4) [OF assms] by blast
  have clear: "cacheSound (s\<lparr> graphEdges := [], pathsCache := {} \<rparr>)"
    by (simp add: cacheSound_def edgeRel_def)
  from AddEdge_sound [OF assms] AddEdge_edges EdgeCreatesCycle_sound(1,2) [OF assms]
    hit bfs applyOps_sound [OF assms] clear
  show ?thesis by blast
qed

lemma cacheSound_skyrimSorter: "cacheSound (skyrimSorter b)"
  by (simp add: cacheSound_def skyrimSorter_def sortingData_def)

theorem pathsCache_sound_throughout_witness:
  "cacheSound (skyrimSorter False) \<and>
   cacheSound (applyOps (skyrimSorter False) [OpAddEdge 0 1 master, OpAddEdge 1 2 master]) \<and>
   EdgeCreatesCycle (applyOps (skyrimSorter False) [OpAddEdge 0 1 master, OpAddEdge 1 2 master]) 2 0 =
     (True, applyOps (skyrimSorter False) [OpAddEdge 0 1 master, OpAddEdge 1 2 master]) \<and>
   (0, 2) \<in> (edgeRel (graphEdges
      (applyOps (skyrimSorter False) [OpAddEdge 0 1 master, OpAddEdge 1 2 master])))\<^sup>*"
proof -
  let ?s = "applyOps (skyrimSorter False) [OpAddEdge 0 1 master, OpAddEdge 1 2 master]"
  note t = pathsCache_sound_throughout [OF cacheSound_skyrimSorter, of False]
  from t have s: "cacheSound ?s" by blast
  have e: "EdgeCreatesCycle ?s 2 0 = (True, ?s)"
    by (simp add: applyOps_def AddEdge_def skyrimSorter_def sortingData_def EdgeCreatesCycle_def Let_def
        bfsLoop.simps bfsIteration_def adjacent_vertices_def inv_adjacent_vertices_def)
       auto
  from pathsCache_sound_throughout [OF s, of 2 0] e
  have "(0, 2) \<in> (edgeRel (graphEdges ?s))\<^sup>*" by simp
  with s e cacheSound_skyrimSorter show ?thesis by simp
qed

text \<open>
  Each of the five phases of \<open>Sort\<close> writes the graph and the cache through the two
  operations only, so each keeps the cache sound and removes no edge.
\<close>

lemma phases_keep_pathsCache_sound:
  assumes "cacheSound s"
  shows "cacheSound (AddSpecificEdges s) \<and>
           set (graphEdges s) \<subseteq> set (graphEdges (AddSpecificEdges s))"
    and "AddHardcodedPluginEdges game s = Inr s' \<Longrightarrow>
           cacheSound s' \<and> set (graphEdges s) \<subseteq> set (graphEdges s')"
    and "AddGroupEdges fuel defaultGroup s = Some (Inr s') \<Longrightarrow>
           cacheSound s' \<and> set (graphEdges s) \<subseteq> set (graphEdges s')"
    and "cacheSound (AddOverlapEdges DoFormIDsOverlap s) \<and>
           set (graphEdges s) \<subseteq> set (graphEdges (AddOverlapEdges DoFormIDsOverlap s))"
    and "AddTieBreakEdges s = Inr s' \<Longrightarrow>
           cacheSound s' \<and> set (graphEdges s) \<subseteq> set (graphEdges s')"
proof -
  note sound = applyOps_sound [OF assms]
  from AddSpecificEdges_ops [of s] sound
  show "cacheSound (AddSpecificEdges s) \<and>
           set (graphEdges s) \<subseteq> set (graphEdges (AddSpecificEdges s))"
    by metis
  from AddOverlapEdges_ops [of DoFormIDsOverlap s] sound
  show "cacheSound (AddOverlapEdges DoFormIDsOverlap s) \<and>
           set (graphEdges s) \<subseteq> set (graphEdges (AddOverlapEdges DoFormIDsOverlap s))"
    by metis
  show "AddHardcodedPluginEdges game s = Inr s' \<Longrightarrow>
           cacheSound s' \<and> set (graphEdges s) \<subseteq> set (graphEdges s')"
    using sound by (blast dest: AddHardcodedPluginEdges_ops)
  show "AddGroupEdges fuel defaultGroup s = Some (Inr s') \<Longrightarrow>
           cacheSound s' \<and> set (graphEdges s) \<subseteq> set (graphEdges s')"
    using sound by (blast dest: AddGroupEdges_ops)
  show "AddTieBreakEdges s = Inr s' \<Longrightarrow>
           cacheSound s' \<and> set (graphEdges s) \<subseteq> set (graphEdges s')"
    using sound by (blast dest: AddTieBreakEdges_ops)
qed


subsection \<open>Hardcoded edges and Update.esm\<close>

lemma GetVertexByNameFrom_found:
  "GetVertexByNameFrom i vs name = Some k \<Longrightarrow>
     i \<le> k \<and> k - i < length vs \<and> CompareFilenames (sortingName (vs ! (k - i))) name = 0"
proof (induction vs arbitrary: i)
  case Nil
  then show ?case by simp
next
  case (Cons v vs)
  show ?case
  proof (cases "CompareFilenames (sortingName v) name = 0")
    case True
    with Cons.prems show ?thesis by simp
  next
    case False
    with Cons.prems have "GetVertexByNameFrom (Suc i) vs name = Some k" by simp
    from Cons.IH [OF this] have "Suc i \<le> k" "k - Suc i < length vs"
      "CompareFilenames (sortingName (vs ! (k - Suc i))) name = 0" by simp_all
    then show ?thesis by (simp add: Suc_diff_le nth_Cons')
  qed
qed

lemma GetVertexByName_found:
  "GetVertexByName s name = Some k \<Longrightarrow>
     CompareFilenames (sortingName (graphVertices s ! k)) name = 0"
  using GetVertexByNameFrom_found [of 0 "graphVertices s" name k]
  by (simp add: GetVertexByName_def)

lemma AddEdge_frame:
  "logger (AddEdge s f t ty) = logger s"
  "graphVertices (AddEdge s f t ty) = graphVertices s"
  "set (graphEdges (AddEdge s f t ty)) \<subseteq> insert (f, t, ty) (set (graphEdges s))"
  by (auto simp add: AddEdge_def)

lemma hardcodedEdgesTo_frame:
  "hardcodedEdgesTo game p v vs s = Inr s' \<Longrightarrow>
     logger s' = logger s \<and> graphVertices s' = graphVertices s \<and>
     (\<forall>e \<in> set (graphEdges s') - set (graphEdges s). fst e = v)"
proof (induction vs arbitrary: s)
  case Nil
  then show ?case by simp
next
  case (Cons a vs)
  obtain vit graphPlugin where a: "a = (vit, graphPlugin)" by (cases a)
  from Cons.prems a consider
    "hardcodedEdgesTo game p v vs s = Inr s'"
    | "hardcodedEdgesTo game p v vs (AddEdge s v vit hardcoded) = Inr s'"
    by (auto simp add: Let_def split: if_splits option.splits)
  then show ?case
  proof cases
    case 1
    from Cons.IH [OF 1] show ?thesis .
  next
    case 2
    from Cons.IH [OF 2] AddEdge_frame [of s v vit hardcoded] show ?thesis
      by auto
  qed
qed

lemma hardcodedEdgesFrom_frame:
  assumes "hardcodedEdgesFrom game p plugin s = Inr s'"
  shows "logger s' = logger s \<and> graphVertices s' = graphVertices s \<and>
     (\<forall>e \<in> set (graphEdges s') - set (graphEdges s).
        CompareFilenames (sortingName (graphVertices s ! fst e)) plugin = 0)"
proof (cases "GetVertexByName s plugin")
  case None
  with assms show ?thesis by (simp add: hardcodedEdgesFrom_def)
next
  case (Some v)
  with assms have "hardcodedEdgesTo game p v (enumerate 0 (graphVertices s)) s = Inr s'"
    by (simp add: hardcodedEdgesFrom_def)
  from hardcodedEdgesTo_frame [OF this] GetVertexByName_found [OF Some]
  show ?thesis by auto
qed

lemma hardcodedPlugins_with_logger:
  assumes "gameKind game = tes5"
  shows "logger s \<Longrightarrow> hardcodedPlugins game ps p s = Inr s' \<Longrightarrow>
     logger s' \<and> graphVertices s' = graphVertices s \<and>
     (\<forall>e \<in> set (graphEdges s') - set (graphEdges s).
        \<not> equivalent (sortingName (graphVertices s ! fst e)) ''update.esm'')"
proof (induction ps arbitrary: p s)
  case Nil
  then show ?case by simp
next
  case (Cons plugin ps)
  from Cons.prems assms consider p' where "hardcodedPlugins game ps p' s = Inr s'"
    | p' s1 where "\<not> equivalent plugin ''update.esm''"
        "hardcodedEdgesFrom game p' plugin s = Inr s1"
        "hardcodedPlugins game ps p' s1 = Inr s'"
    by (auto simp add: Let_def split: if_splits option.splits sum.splits)
  then show ?case
  proof cases
    case 1
    from Cons.IH [OF Cons.prems(1) 1] show ?thesis .
  next
    case 2
    from hardcodedEdgesFrom_frame [OF 2(2)] have l1: "logger s1 = logger s"
      and v1: "graphVertices s1 = graphVertices s"
      and e1: "\<forall>e \<in> set (graphEdges s1) - set (graphEdges s).
        CompareFilenames (sortingName (graphVertices s ! fst e)) plugin = 0"
      by simp_all
    from l1 Cons.prems(1) have "logger s1" by simp
    from Cons.IH [OF this 2(3)] v1 have l': "logger s'"
      and v': "graphVertices s' = graphVertices s"
      and e': "\<forall>e \<in> set (graphEdges s') - set (graphEdges s1).
        \<not> equivalent (sortingName (graphVertices s ! fst e)) ''update.esm''"
      by simp_all
    have "\<forall>e \<in> set (graphEdges s1) - set (graphEdges s).
        \<not> equivalent (sortingName (graphVertices s ! fst e)) ''update.esm''"
    proof
      fix e assume "e \<in> set (graphEdges s1) - set (graphEdges s)"
      with e1 have "to_lower (sortingName (graphVertices s ! fst e)) = to_lower plugin"
        by (simp add: CompareFilenames_zero)
      with 2(1) show "\<not> equivalent (sortingName (graphVertices s ! fst e)) ''update.esm''"
        by (simp add: equivalent_def CompareFilenames_zero)
    qed
    with e' l' v' show ?thesis by blast
  qed
qed

text \<open>
  With a logger configured, the phase adds no edge that leaves a vertex named
  \<open>Update.esm\<close> when the game is Skyrim: this is the path that does what C1 states.
\<close>

lemma AddHardcodedPluginEdges_with_logger:
  assumes "gameKind game = tes5" and "logger s" and "AddHardcodedPluginEdges game s = Inr s'"
  shows "\<forall>e \<in> set (graphEdges s') - set (graphEdges s).
           \<not> equivalent (sortingName (graphVertices s ! fst e)) ''update.esm''"
  using hardcodedPlugins_with_logger [OF assms(1) assms(2)] assms(3)
  unfolding AddHardcodedPluginEdges_def by blast

text \<open>
  C1. For Skyrim the hardcoded-edge phase is to add no edge from \<open>Update.esm\<close>.
  \<open>Sort\<close> runs \<open>AddSpecificEdges\<close> before \<open>AddHardcodedPluginEdges\<close>; on the four
  plugins it adds the master-flag edges to \<open>Blank.esp\<close> and the master edge from
  \<open>Skyrim.esm\<close> to \<open>Blank.esm\<close>, and none between \<open>Update.esm\<close> and \<open>Blank.esm\<close>. On
  that state, with a logger configured the hardcoded-edge phase adds no edge from
  \<open>Update.esm\<close>; with no logger the \<open>continue\<close> that skips the plugin is not reached
  and the phase adds the hardcoded edge from \<open>Update.esm\<close> (vertex 1) to the master
  \<open>Blank.esm\<close> (vertex 2). The edge to \<open>Blank.esp\<close> (vertex 3) is not added again: the
  master-flag edge has put the pair in the paths cache.
\<close>

theorem AddHardcodedPluginEdges_update_esm:
  "AddSpecificEdges (loadedSorter False) =
     (loadedSorter False)
       \<lparr> graphEdges := [(0, 3, masterFlag), (1, 3, masterFlag), (2, 3, masterFlag), (0, 2, master)],
         pathsCache := {(0, 3), (1, 3), (2, 3), (0, 2)} \<rparr> \<and>
   AddHardcodedPluginEdges skyrimGame (AddSpecificEdges (loadedSorter False)) =
     Inr ((loadedSorter False)
            \<lparr> graphEdges := [(0, 3, masterFlag), (1, 3, masterFlag), (2, 3, masterFlag),
                             (0, 2, master), (0, 1, hardcoded), (1, 2, hardcoded)],
              pathsCache := {(0, 3), (1, 3), (2, 3), (0, 2), (0, 1), (1, 2)} \<rparr>) \<and>
   AddSpecificEdges (loadedSorter True) =
     (loadedSorter True)
       \<lparr> graphEdges := [(0, 3, masterFlag), (1, 3, masterFlag), (2, 3, masterFlag), (0, 2, master)],
         pathsCache := {(0, 3), (1, 3), (2, 3), (0, 2)} \<rparr> \<and>
   AddHardcodedPluginEdges skyrimGame (AddSpecificEdges (loadedSorter True)) =
     Inr ((loadedSorter True)
            \<lparr> graphEdges := [(0, 3, masterFlag), (1, 3, masterFlag), (2, 3, masterFlag),
                             (0, 2, master), (0, 1, hardcoded)],
              pathsCache := {(0, 3), (1, 3), (2, 3), (0, 2), (0, 1)} \<rparr>) \<and>
   gameKind skyrimGame = tes5 \<and>
   implicitlyActivePlugins (gameLoadOrderHandler skyrimGame) = [''Skyrim.esm'', ''Update.esm''] \<and>
   equivalent (sortingName (graphVertices (loadedSorter False) ! 1)) ''update.esm''"
  by code_simp


subsection \<open>ComparePlugins\<close>

text \<open>
  \<open>AddTieBreakEdges\<close> puts \<open>plugin1\<close> first when \<open>ComparePlugins\<close> returns a negative
  number. Two plugins are distinct when their names differ case-insensitively and they
  do not hold the same load order index. \<open>nameBefore\<close> is the comparison of two names
  that \<open>ComparePlugins\<close> makes when neither plugin has an index.
\<close>

definition comesBefore :: "PluginSortingData \<Rightarrow> PluginSortingData \<Rightarrow> bool" where
  "comesBefore p q = (case ComparePlugins p q of Inr r \<Rightarrow> r < 0 | Inl e \<Rightarrow> False)"

definition distinctPlugins :: "PluginSortingData \<Rightarrow> PluginSortingData \<Rightarrow> bool" where
  "distinctPlugins p q =
     (CompareFilenames (sortingName p) (sortingName q) \<noteq> 0 \<and>
      (loadOrderIndex p \<noteq> None \<longrightarrow> loadOrderIndex p \<noteq> loadOrderIndex q))"

definition nameBefore :: "string \<Rightarrow> string \<Rightarrow> bool" where
  "nameBefore n m =
     (CompareFilenames (take (sizeMinus4 (length n)) n) (take (sizeMinus4 (length m)) m) < 0 \<or>
      (CompareFilenames (take (sizeMinus4 (length n)) n) (take (sizeMinus4 (length m)) m) = 0 \<and>
       4 \<le> length n \<and> 4 \<le> length m \<and>
       CompareFilenames (drop (length n - 4) n) (drop (length m - 4) m) < 0))"

text \<open>The plugins of the tie-break scenario, and one with a load order index.\<close>

definition plugEsm :: PluginSortingData where
  "plugEsm = sortingData ''plug.esm'' True None"

definition plugEsp :: PluginSortingData where
  "plugEsp = sortingData ''plug.esp'' False None"

definition indexedPlugin :: PluginSortingData where
  "indexedPlugin = sortingData ''Zebra.esp'' False (Some 7)"

text \<open>
  Two plugins without an index, one with a name shorter than four characters, and two
  plugins of different names with the same index.
\<close>

definition shortPlugin :: PluginSortingData where
  "shortPlugin = sortingData ''abc'' False None"

definition shortPluginEsp :: PluginSortingData where
  "shortPluginEsp = sortingData ''abc.esp'' False None"

definition thirdPluginA :: PluginSortingData where
  "thirdPluginA = sortingData ''A.esp'' False (Some 3)"

definition thirdPluginB :: PluginSortingData where
  "thirdPluginB = sortingData ''B.esp'' False (Some 3)"

lemma substr_base: "substr n 0 k = Inr (take k n)"
  by (simp add: substr_def)

lemma substr_ext:
  "substr n (sizeMinus4 (length n)) npos =
     (if 4 \<le> length n then Inr (drop (length n - 4) n) else Inl OutOfRange)"
  by (auto simp add: substr_def sizeMinus4_def npos_def)

lemma comesBefore_cases:
  "comesBefore p q =
     (case (loadOrderIndex p, loadOrderIndex q) of
        (Some i, Some j) \<Rightarrow> i < j
      | (Some i, None) \<Rightarrow> True
      | (None, Some j) \<Rightarrow> False
      | (None, None) \<Rightarrow> nameBefore (sortingName p) (sortingName q))"
  by (cases "loadOrderIndex p"; cases "loadOrderIndex q")
     (auto simp add: comesBefore_def ComparePlugins_def nameBefore_def Let_def andThen_def
        substr_base substr_ext)


lemma nameBefore_irrefl: "\<not> nameBefore n n"
  by (simp add: nameBefore_def CompareFilenames_def compareBytes_refl)

lemma nameBefore_asym: "nameBefore n m \<Longrightarrow> \<not> nameBefore m n"
proof
  let ?b = "\<lambda>n. take (sizeMinus4 (length n)) n"
  let ?e = "\<lambda>n. drop (length n - 4) n"
  assume 1: "nameBefore n m" and 2: "nameBefore m n"
  have fb: "CompareFilenames (?b m) (?b n) = - CompareFilenames (?b n) (?b m)"
    by (rule CompareFilenames_flip)
  have fe: "CompareFilenames (?e m) (?e n) = - CompareFilenames (?e n) (?e m)"
    by (rule CompareFilenames_flip)
  from 1 2 show False
    unfolding nameBefore_def fb fe by linarith
qed

lemma nameBefore_trans:
  assumes 1: "nameBefore n m" and 2: "nameBefore m k"
  shows "nameBefore n k"
proof -
  let ?b = "\<lambda>n. take (sizeMinus4 (length n)) n"
  let ?e = "\<lambda>n. drop (length n - 4) n"
  from 1 consider
    (less) "CompareFilenames (?b n) (?b m) < 0"
    | (same) "CompareFilenames (?b n) (?b m) = 0" "4 \<le> length n" "4 \<le> length m"
        "CompareFilenames (?e n) (?e m) < 0"
    unfolding nameBefore_def by blast
  then show ?thesis
  proof cases
    case less
    from 2 consider
      (less') "CompareFilenames (?b m) (?b k) < 0"
      | (same') "CompareFilenames (?b m) (?b k) = 0"
      unfolding nameBefore_def by blast
    then have "CompareFilenames (?b n) (?b k) < 0"
    proof cases
      case less'
      from less less' show ?thesis by (rule CompareFilenames_trans)
    next
      case same'
      from CompareFilenames_cong(2) [OF same', of "?b n"] less show ?thesis by simp
    qed
    then show ?thesis unfolding nameBefore_def by blast
  next
    case same
    from 2 consider
      (less') "CompareFilenames (?b m) (?b k) < 0"
      | (same') "CompareFilenames (?b m) (?b k) = 0" "4 \<le> length k"
          "CompareFilenames (?e m) (?e k) < 0"
      unfolding nameBefore_def by blast
    then show ?thesis
    proof cases
      case less'
      from CompareFilenames_cong(1) [OF same(1), of "?b k"] less'
      have "CompareFilenames (?b n) (?b k) < 0" by simp
      then show ?thesis unfolding nameBefore_def by blast
    next
      case same'
      from CompareFilenames_cong(1) [OF same(1), of "?b k"] same'(1)
      have "CompareFilenames (?b n) (?b k) = 0" by simp
      moreover from same(4) same'(3) have "CompareFilenames (?e n) (?e k) < 0"
        by (rule CompareFilenames_trans)
      ultimately show ?thesis
        unfolding nameBefore_def using same(2) same'(2) by blast
    qed
  qed
qed

lemma to_lower_split: "to_lower (take k n) @ to_lower (drop k n) = to_lower n"
  by (simp add: to_lower_def flip: map_append)

lemma nameBefore_total:
  assumes d: "CompareFilenames n m \<noteq> 0" and n: "4 \<le> length n" and m: "4 \<le> length m"
  shows "nameBefore n m \<or> nameBefore m n"
proof (rule ccontr)
  let ?b = "\<lambda>n. take (length n - 4) n"
  let ?e = "\<lambda>n. drop (length n - 4) n"
  assume "\<not> (nameBefore n m \<or> nameBefore m n)"
  then have 1: "\<not> nameBefore n m" and 2: "\<not> nameBefore m n" by simp_all
  have sn: "sizeMinus4 (length n) = length n - 4" and sm: "sizeMinus4 (length m) = length m - 4"
    using n m by (simp_all add: sizeMinus4_def)
  have fb: "CompareFilenames (?b m) (?b n) = - CompareFilenames (?b n) (?b m)"
    by (rule CompareFilenames_flip)
  have fe: "CompareFilenames (?e m) (?e n) = - CompareFilenames (?e n) (?e m)"
    by (rule CompareFilenames_flip)
  from 1 2 n m have "CompareFilenames (?b n) (?b m) = 0 \<and> CompareFilenames (?e n) (?e m) = 0"
    unfolding nameBefore_def sn sm fb fe by linarith
  then have "to_lower (?b n) = to_lower (?b m)" and "to_lower (?e n) = to_lower (?e m)"
    by (simp_all only: CompareFilenames_zero)
  then have "to_lower (?b n) @ to_lower (?e n) = to_lower (?b m) @ to_lower (?e m)"
    by (rule arg_cong2)
  then have "to_lower n = to_lower m"
    by (simp only: to_lower_split)
  then have "CompareFilenames n m = 0"
    by (simp only: CompareFilenames_zero)
  with d show False ..
qed

text \<open>
  C7 (as amended). \<open>ComparePlugins\<close> orders a plugin with a load order index before one
  without; two indexed plugins by index, the lower first; two plugins without an index,
  whose names have at least four characters, case-insensitively by the name without
  its last four characters and, when these are equal, by the last four characters. The
  order is irreflexive, asymmetric and transitive on all plugins, and it decides every
  pair of plugins whose names differ case-insensitively and have at least four
  characters and that do not hold the same load order index. \<open>plug.esm\<close> comes before
  \<open>plug.esp\<close>.
\<close>

theorem ComparePlugins_strict_total_order:
  "(loadOrderIndex p \<noteq> None \<and> loadOrderIndex q = None \<longrightarrow>
      comesBefore p q \<and> \<not> comesBefore q p) \<and>
   (\<forall>i j. loadOrderIndex p = Some i \<and> loadOrderIndex q = Some j \<longrightarrow>
      comesBefore p q = (i < j)) \<and>
   (loadOrderIndex p = None \<and> loadOrderIndex q = None \<and>
    4 \<le> length (sortingName p) \<and> 4 \<le> length (sortingName q) \<longrightarrow>
      comesBefore p q =
        (CompareFilenames (take (length (sortingName p) - 4) (sortingName p))
           (take (length (sortingName q) - 4) (sortingName q)) < 0 \<or>
         (CompareFilenames (take (length (sortingName p) - 4) (sortingName p))
            (take (length (sortingName q) - 4) (sortingName q)) = 0 \<and>
          CompareFilenames (drop (length (sortingName p) - 4) (sortingName p))
            (drop (length (sortingName q) - 4) (sortingName q)) < 0))) \<and>
   \<not> comesBefore p p \<and>
   (comesBefore p q \<longrightarrow> \<not> comesBefore q p) \<and>
   (comesBefore p q \<and> comesBefore q r \<longrightarrow> comesBefore p r) \<and>
   (distinctPlugins p q \<and> 4 \<le> length (sortingName p) \<and> 4 \<le> length (sortingName q) \<longrightarrow>
      comesBefore p q \<or> comesBefore q p) \<and>
   comesBefore plugEsm plugEsp"
proof -
  have a: "loadOrderIndex p \<noteq> None \<and> loadOrderIndex q = None \<longrightarrow>
      comesBefore p q \<and> \<not> comesBefore q p"
    by (auto simp add: comesBefore_cases)
  have b: "\<forall>i j. loadOrderIndex p = Some i \<and> loadOrderIndex q = Some j \<longrightarrow>
      comesBefore p q = (i < j)"
    by (auto simp add: comesBefore_cases)
  have c: "loadOrderIndex p = None \<and> loadOrderIndex q = None \<and>
    4 \<le> length (sortingName p) \<and> 4 \<le> length (sortingName q) \<longrightarrow>
      comesBefore p q =
        (CompareFilenames (take (length (sortingName p) - 4) (sortingName p))
           (take (length (sortingName q) - 4) (sortingName q)) < 0 \<or>
         (CompareFilenames (take (length (sortingName p) - 4) (sortingName p))
            (take (length (sortingName q) - 4) (sortingName q)) = 0 \<and>
          CompareFilenames (drop (length (sortingName p) - 4) (sortingName p))
            (drop (length (sortingName q) - 4) (sortingName q)) < 0))"
    by (auto simp add: comesBefore_cases nameBefore_def sizeMinus4_def)
  have d: "\<not> comesBefore p p"
    by (cases "loadOrderIndex p") (simp_all add: comesBefore_cases nameBefore_irrefl)
  have e: "comesBefore p q \<longrightarrow> \<not> comesBefore q p"
    by (cases "loadOrderIndex p"; cases "loadOrderIndex q")
       (auto simp add: comesBefore_cases dest: nameBefore_asym)
  have f: "comesBefore p q \<and> comesBefore q r \<longrightarrow> comesBefore p r"
    by (cases "loadOrderIndex p"; cases "loadOrderIndex q"; cases "loadOrderIndex r")
       (auto simp add: comesBefore_cases intro: nameBefore_trans)
  have g: "distinctPlugins p q \<and> 4 \<le> length (sortingName p) \<and> 4 \<le> length (sortingName q) \<longrightarrow>
      comesBefore p q \<or> comesBefore q p"
    by (cases "loadOrderIndex p"; cases "loadOrderIndex q")
       (auto simp add: comesBefore_cases distinctPlugins_def dest: nameBefore_total)
  have h: "comesBefore plugEsm plugEsp"
    by (simp add: comesBefore_cases nameBefore_def plugEsm_def plugEsp_def sortingData_def sizeMinus4_def
        CompareFilenames_def to_lower_def to_lower_char_def)
  from a b c d e f g h show ?thesis by blast
qed


theorem ComparePlugins_strict_total_order_witness:
  "distinctPlugins plugEsm plugEsp \<and>
   4 \<le> length (sortingName plugEsm) \<and> 4 \<le> length (sortingName plugEsp) \<and>
   loadOrderIndex indexedPlugin \<noteq> None \<and> loadOrderIndex plugEsm = None \<and>
   ComparePlugins plugEsm plugEsp = Inr (- 1) \<and>
   comesBefore plugEsm plugEsp \<and> \<not> comesBefore plugEsp plugEsm \<and>
   comesBefore indexedPlugin plugEsm \<and> comesBefore indexedPlugin plugEsp"
proof -
  have d: "distinctPlugins plugEsm plugEsp"
    by (simp add: distinctPlugins_def plugEsm_def plugEsp_def sortingData_def CompareFilenames_def
        to_lower_def to_lower_char_def)
  have l: "4 \<le> length (sortingName plugEsm)" "4 \<le> length (sortingName plugEsp)"
    by (simp_all add: plugEsm_def plugEsp_def sortingData_def)
  have i: "loadOrderIndex indexedPlugin \<noteq> None" "loadOrderIndex plugEsm = None"
    by (simp_all add: indexedPlugin_def plugEsm_def sortingData_def)
  have c: "ComparePlugins plugEsm plugEsp = Inr (- 1)"
    by (simp add: ComparePlugins_def plugEsm_def plugEsp_def sortingData_def Let_def andThen_def substr_def
        sizeMinus4_def npos_def CompareFilenames_def to_lower_def to_lower_char_def)
  note t1 = ComparePlugins_strict_total_order [of plugEsm plugEsp plugEsp]
  note t2 = ComparePlugins_strict_total_order [of indexedPlugin plugEsm plugEsp]
  from t1 have 1: "comesBefore plugEsm plugEsp" and 2: "\<not> comesBefore plugEsp plugEsm"
    by blast+
  from t2 i have 3: "comesBefore indexedPlugin plugEsm" by blast
  from t2 3 1 have 4: "comesBefore indexedPlugin plugEsp" by blast
  from d l i c 1 2 3 4 show ?thesis by simp
qed


text \<open>
  C7 as stated, for all distinct plugins, fails. For the plugins \<open>abc\<close> and \<open>abc.esp\<close>
  without an index \<open>name.length() - 4\<close> wraps for the shorter name, its base name is
  the whole name, the base names are equal, and \<open>substr\<close> throws \<open>std::out_of_range\<close>
  for the extension, whichever plugin comes first: neither is ordered before the
  other. Two plugins of different names with the same index get the result 1 in both
  orders.
\<close>

theorem ComparePlugins_total_counterexample:
  "CompareFilenames (sortingName shortPlugin) (sortingName shortPluginEsp) \<noteq> 0 \<and>
   ComparePlugins shortPlugin shortPluginEsp = Inl OutOfRange \<and>
   ComparePlugins shortPluginEsp shortPlugin = Inl OutOfRange \<and>
   \<not> comesBefore shortPlugin shortPluginEsp \<and> \<not> comesBefore shortPluginEsp shortPlugin \<and>
   CompareFilenames (sortingName thirdPluginA) (sortingName thirdPluginB) \<noteq> 0 \<and>
   ComparePlugins thirdPluginA thirdPluginB = Inr 1 \<and>
   ComparePlugins thirdPluginB thirdPluginA = Inr 1 \<and>
   \<not> comesBefore thirdPluginA thirdPluginB \<and> \<not> comesBefore thirdPluginB thirdPluginA"
  by (simp add: comesBefore_def ComparePlugins_def shortPlugin_def shortPluginEsp_def
      thirdPluginA_def thirdPluginB_def sortingData_def Let_def andThen_def substr_def
      sizeMinus4_def npos_def CompareFilenames_def to_lower_def to_lower_char_def)


section \<open>Group resolver\<close>

text \<open>
  Modelled from the spec: \<open>GetTransitiveAfterGroups\<close> (api/sorting/group_sort.cpp) is
  not among the sources; only its test is. The groups are given in the order the
  traversal meets them (the source holds them in an unordered set). \<open>cycleFrom\<close> is
  the payload of the error: the part of the visited stack from the repeated group to the
  top, each step annotated \<open>LoadAfter\<close>.
\<close>

definition cycleFrom :: "string \<Rightarrow> string list \<Rightarrow> Vertex list" where
  "cycleFrom name stack =
     map (\<lambda>n. \<lparr> vertexName = n, typeOfEdgeToNextVertex = LoadAfter \<rparr>)
       (dropWhile (\<lambda>n. n \<noteq> name) stack)"

text \<open>The number of defined group names not on the stack: it bounds the depth of the traversal.\<close>

definition unvisited :: "Group list \<Rightarrow> string list \<Rightarrow> nat" where
  "unvisited gs stack = card (set (map groupName gs) - set stack)"

lemma findGroup_name: "findGroup gs n = Some g \<Longrightarrow> n \<in> set (map groupName gs)"
  by (auto simp add: findGroup_def find_Some_iff)

lemma unvisited_push:
  "n \<notin> set stack \<Longrightarrow> findGroup gs n = Some g \<Longrightarrow>
     unvisited gs (stack @ [n]) < unvisited gs stack"
proof -
  assume a: "n \<notin> set stack" and b: "findGroup gs n = Some g"
  from findGroup_name [OF b] a have "n \<in> set (map groupName gs) - set stack" by simp
  then have "card ((set (map groupName gs) - set stack) - {n}) <
             card (set (map groupName gs) - set stack)"
    by (intro card_Diff1_less) simp_all
  moreover have "set (map groupName gs) - set (stack @ [n]) =
                 (set (map groupName gs) - set stack) - {n}" by auto
  ultimately show ?thesis
    unfolding unvisited_def by (simp only:)
qed

text \<open>
  Modelled from the spec: the depth-first traversal with a visited stack. Visiting a
  group that is on the stack is a cycle and raises \<open>CyclicInteractionError\<close>; an
  after-group that is not defined raises \<open>UndefinedGroupError\<close>; otherwise the group's
  after-groups are visited in turn, and the groups met are collected.
\<close>

function visitGroup :: "Group list \<Rightarrow> string list \<Rightarrow> string \<Rightarrow> error + string list"
  and visitAfterGroups :: "Group list \<Rightarrow> string list \<Rightarrow> string list \<Rightarrow> error + string list"
  where
  "visitGroup gs stack name =
     (if name \<in> set stack then Inl (CyclicInteractionError (cycleFrom name stack))
      else (case findGroup gs name of
              None \<Rightarrow> Inl (UndefinedGroupError name)
            | Some g \<Rightarrow> visitAfterGroups gs (stack @ [name]) (afterGroups g)))"
| "visitAfterGroups gs stack [] = Inr []"
| "visitAfterGroups gs stack (a # rest) =
     (case visitGroup gs stack a of
        Inl e \<Rightarrow> Inl e
      | Inr found \<Rightarrow>
          (case visitAfterGroups gs stack rest of
             Inl e \<Rightarrow> Inl e
           | Inr others \<Rightarrow> Inr (a # found @ others)))"
  by pat_completeness auto
termination
  by (relation "inv_image (less_than <*lex*> less_than)
        (\<lambda>x. case x of
           Inl (gs, stack, name) \<Rightarrow> (unvisited gs stack, 0)
         | Inr (gs, stack, names) \<Rightarrow> (unvisited gs stack, Suc (length names)))")
     (auto simp add: unvisited_push)

text \<open>
  Modelled from the spec: for each group, the transitive closure of its after-groups,
  or the first error the traversal raises.
\<close>

fun closures :: "Group list \<Rightarrow> Group list \<Rightarrow> error + (string \<times> string list) list" where
  "closures gs [] = Inr []"
| "closures gs (g # rest) =
     (case visitGroup gs [] (groupName g) of
        Inl e \<Rightarrow> Inl e
      | Inr found \<Rightarrow>
          (case closures gs rest of
             Inl e \<Rightarrow> Inl e
           | Inr others \<Rightarrow> Inr ((groupName g, remdups found) # others)))"

definition GetTransitiveAfterGroups :: "Group list \<Rightarrow> error + (string \<times> string list) list" where
  "GetTransitiveAfterGroups gs = closures gs gs"

text \<open>
  The after-relation of a set of groups, what it is for a vertex sequence to be a cycle
  of it, and the groups of the tests in group_sort_test.h.
\<close>

definition loadsAfter :: "Group list \<Rightarrow> string \<Rightarrow> string \<Rightarrow> bool" where
  "loadsAfter gs x y = (case findGroup gs x of Some g \<Rightarrow> y \<in> set (afterGroups g) | None \<Rightarrow> False)"

definition afterRel :: "Group list \<Rightarrow> (string \<times> string) set" where
  "afterRel gs = {(x, y). loadsAfter gs x y}"

definition allDefined :: "Group list \<Rightarrow> bool" where
  "allDefined gs = (\<forall>g \<in> set gs. \<forall>a \<in> set (afterGroups g). findGroup gs a \<noteq> None)"

fun linked :: "('a \<times> 'a) set \<Rightarrow> 'a list \<Rightarrow> bool" where
  "linked R [] = True"
| "linked R [x] = True"
| "linked R (x # y # zs) = ((x, y) \<in> R \<and> linked R (y # zs))"

definition isCycle :: "(string \<times> string) set \<Rightarrow> Vertex list \<Rightarrow> bool" where
  "isCycle R cyc =
     (cyc \<noteq> [] \<and> list_all (\<lambda>v. typeOfEdgeToNextVertex v = LoadAfter) cyc \<and>
      linked R (map vertexName cyc) \<and>
      (last (map vertexName cyc), hd (map vertexName cyc)) \<in> R \<and>
      distinct (map vertexName cyc))"

definition groupA :: Group where "groupA = \<lparr> groupName = ''a'', afterGroups = [''c''] \<rparr>"
definition groupB :: Group where "groupB = \<lparr> groupName = ''b'', afterGroups = [''a''] \<rparr>"
definition groupC :: Group where "groupC = \<lparr> groupName = ''c'', afterGroups = [''b''] \<rparr>"

text \<open>
  Two groups, one loading after a group that is not defined, the other after itself.
\<close>

definition groupX :: Group where "groupX = \<lparr> groupName = ''x'', afterGroups = [''y''] \<rparr>"
definition groupSelf :: Group where "groupSelf = \<lparr> groupName = ''a'', afterGroups = [''a''] \<rparr>"

definition loadAfterStep :: "string \<Rightarrow> Vertex" where
  "loadAfterStep n = \<lparr> vertexName = n, typeOfEdgeToNextVertex = LoadAfter \<rparr>"

text \<open>
  The model on the other two tests of group_sort_test.h: the closure of a chain, and an
  after-group that does not exist.
\<close>

lemma closure_example:
  "GetTransitiveAfterGroups
     [\<lparr> groupName = ''a'', afterGroups = [] \<rparr>, \<lparr> groupName = ''b'', afterGroups = [''a''] \<rparr>,
      \<lparr> groupName = ''c'', afterGroups = [''b''] \<rparr>] =
     Inr [(''a'', []), (''b'', [''a'']), (''c'', [''b'', ''a''])]"
  by (simp add: GetTransitiveAfterGroups_def findGroup_def)

lemma undefined_example:
  "GetTransitiveAfterGroups [\<lparr> groupName = ''b'', afterGroups = [''a''] \<rparr>] =
     Inl (UndefinedGroupError ''a'')"
  by (simp add: GetTransitiveAfterGroups_def findGroup_def)


lemma findGroup_member: "findGroup gs n = Some g \<Longrightarrow> g \<in> set gs \<and> groupName g = n"
  by (auto simp add: findGroup_def find_Some_iff)

lemma findGroup_own: "g \<in> set gs \<Longrightarrow> findGroup gs (groupName g) \<noteq> None"
  by (auto simp add: findGroup_def find_None_iff)

lemma afterRel_iff: "((x, y) \<in> afterRel gs) = (\<exists>g. findGroup gs x = Some g \<and> y \<in> set (afterGroups g))"
  by (auto simp add: afterRel_def loadsAfter_def split: option.splits)

lemma visit_errors:
  "visitGroup gs stack n = Inl e \<Longrightarrow> allDefined gs \<Longrightarrow> findGroup gs n \<noteq> None \<Longrightarrow>
     \<exists>cyc. e = CyclicInteractionError cyc"
  "visitAfterGroups gs stack as = Inl e \<Longrightarrow> allDefined gs \<Longrightarrow>
     \<forall>a \<in> set as. findGroup gs a \<noteq> None \<Longrightarrow> \<exists>cyc. e = CyclicInteractionError cyc"
proof (induction gs stack n and gs stack as rule: visitGroup_visitAfterGroups.induct)
  case (1 gs stack name)
  show ?case
  proof (cases "name \<in> set stack")
    case True
    with "1.prems"(1) show ?thesis by auto
  next
    case False
    from "1.prems"(3) obtain g where g: "findGroup gs name = Some g" by auto
    from "1.prems"(1) False g have v: "visitAfterGroups gs (stack @ [name]) (afterGroups g) = Inl e"
      by simp
    from findGroup_member [OF g] "1.prems"(2)
    have "\<forall>a \<in> set (afterGroups g). findGroup gs a \<noteq> None"
      by (auto simp add: allDefined_def)
    from "1.IH" [OF False g v "1.prems"(2) this] show ?thesis .
  qed
next
  case (2 gs stack)
  then show ?case by simp
next
  case (3 gs stack a rest)
  show ?case
  proof (cases "visitGroup gs stack a")
    case (Inl e')
    with "3.prems"(1) have "e' = e" by simp
    with Inl "3.IH"(1) "3.prems" show ?thesis by simp
  next
    case (Inr found)
    with "3.prems"(1) have "visitAfterGroups gs stack rest = Inl e"
      by (auto split: sum.splits)
    from "3.IH"(2) [OF Inr this "3.prems"(2)] "3.prems"(3) show ?thesis by simp
  qed
qed

lemma visit_complete:
  "visitGroup gs stack n = Inr found \<Longrightarrow>
     \<forall>x. (n, x) \<in> (afterRel gs)\<^sup>* \<longrightarrow> (x, x) \<notin> (afterRel gs)\<^sup>+"
  "visitAfterGroups gs stack as = Inr found \<Longrightarrow>
     \<forall>a \<in> set as. \<forall>x. (a, x) \<in> (afterRel gs)\<^sup>* \<longrightarrow> (x, x) \<notin> (afterRel gs)\<^sup>+"
proof (induction gs stack n and gs stack as arbitrary: found and found
    rule: visitGroup_visitAfterGroups.induct)
  case (1 gs stack name)
  from "1.prems" have ns: "name \<notin> set stack" by (auto split: if_splits)
  with "1.prems" obtain g where g: "findGroup gs name = Some g"
    and v: "visitAfterGroups gs (stack @ [name]) (afterGroups g) = Inr found"
    by (auto split: option.splits)
  note ih = "1.IH" [OF ns g v]
  show ?case
  proof (intro allI impI notI)
    fix x
    assume nx: "(name, x) \<in> (afterRel gs)\<^sup>*" and xx: "(x, x) \<in> (afterRel gs)\<^sup>+"
    from nx xx have "(name, x) \<in> (afterRel gs)\<^sup>+" by (rule rtrancl_trancl_trancl)
    then obtain a where na: "(name, a) \<in> afterRel gs" and ax: "(a, x) \<in> (afterRel gs)\<^sup>*"
      by (auto dest: tranclD)
    from na g have "a \<in> set (afterGroups g)" by (simp add: afterRel_iff)
    with ih ax xx show False by blast
  qed
next
  case (2 gs stack)
  then show ?case by simp
next
  case (3 gs stack a rest)
  from "3.prems" obtain f1 f2 where 1: "visitGroup gs stack a = Inr f1"
    and 2: "visitAfterGroups gs stack rest = Inr f2"
    by (auto split: sum.splits)
  from "3.IH"(1) [OF 1] "3.IH"(2) [OF 1 2] show ?case by simp
qed


lemma linked_snoc:
  "linked R xs \<Longrightarrow> xs \<noteq> [] \<Longrightarrow> (last xs, y) \<in> R \<Longrightarrow> linked R (xs @ [y])"
  by (induction R xs rule: linked.induct) auto

lemma linked_snoc_last:
  "linked R (xs @ [y]) \<Longrightarrow> xs \<noteq> [] \<Longrightarrow> (last xs, y) \<in> R \<and> linked R xs"
  by (induction R xs rule: linked.induct) auto

lemma linked_dropWhile: "linked R xs \<Longrightarrow> linked R (dropWhile P xs)"
  by (induction R xs rule: linked.induct) auto

lemma last_dropWhile: "n \<in> set xs \<Longrightarrow> last (dropWhile (\<lambda>x. x \<noteq> n) xs) = last xs"
  by (induction xs) auto

lemma hd_dropWhile_eq: "n \<in> set xs \<Longrightarrow> hd (dropWhile (\<lambda>x. x \<noteq> n) xs) = n"
  by (induction xs) auto

lemma dropWhile_nonempty: "n \<in> set xs \<Longrightarrow> dropWhile (\<lambda>x. x \<noteq> n) xs \<noteq> []"
  by (induction xs) auto

lemma cycleFrom_names:
  "map vertexName (cycleFrom n stack) = dropWhile (\<lambda>x. x \<noteq> n) stack"
  by (simp add: cycleFrom_def comp_def)

lemma cycleFrom_isCycle:
  assumes "n \<in> set stack" and "linked R (stack @ [n])" and "distinct stack"
  shows "isCycle R (cycleFrom n stack)"
proof -
  from assms(1) have ne: "stack \<noteq> []" by auto
  from linked_snoc_last [OF assms(2) ne] have l: "(last stack, n) \<in> R" and p: "linked R stack"
    by simp_all
  have 1: "cycleFrom n stack \<noteq> []"
    using dropWhile_nonempty [OF assms(1)] by (simp add: cycleFrom_def)
  have 2: "list_all (\<lambda>v. typeOfEdgeToNextVertex v = LoadAfter) (cycleFrom n stack)"
    by (simp add: cycleFrom_def list_all_iff)
  have 3: "linked R (map vertexName (cycleFrom n stack))"
    unfolding cycleFrom_names using p by (rule linked_dropWhile)
  have 4: "(last (map vertexName (cycleFrom n stack)), hd (map vertexName (cycleFrom n stack))) \<in> R"
    unfolding cycleFrom_names using l
    by (simp add: last_dropWhile [OF assms(1)] hd_dropWhile_eq [OF assms(1)])
  have 5: "distinct (map vertexName (cycleFrom n stack))"
    unfolding cycleFrom_names using assms(3) by (rule distinct_dropWhile)
  from 1 2 3 4 5 show ?thesis unfolding isCycle_def by blast
qed

lemma visit_cycle:
  "visitGroup gs stack n = Inl (CyclicInteractionError cyc) \<Longrightarrow>
     linked (afterRel gs) (stack @ [n]) \<Longrightarrow> distinct stack \<Longrightarrow> isCycle (afterRel gs) cyc"
  "visitAfterGroups gs stack as = Inl (CyclicInteractionError cyc) \<Longrightarrow>
     linked (afterRel gs) stack \<Longrightarrow> distinct stack \<Longrightarrow> stack \<noteq> [] \<Longrightarrow>
     \<forall>a \<in> set as. (last stack, a) \<in> afterRel gs \<Longrightarrow> isCycle (afterRel gs) cyc"
proof (induction gs stack n and gs stack as rule: visitGroup_visitAfterGroups.induct)
  case (1 gs stack name)
  show ?case
  proof (cases "name \<in> set stack")
    case True
    with "1.prems"(1) have "cyc = cycleFrom name stack" by simp
    with cycleFrom_isCycle [OF True "1.prems"(2,3)] show ?thesis by simp
  next
    case False
    with "1.prems"(1) obtain g where g: "findGroup gs name = Some g"
      and v: "visitAfterGroups gs (stack @ [name]) (afterGroups g) = Inl (CyclicInteractionError cyc)"
      by (auto split: option.splits)
    have d: "distinct (stack @ [name])" using False "1.prems"(3) by simp
    have a: "\<forall>a \<in> set (afterGroups g). (last (stack @ [name]), a) \<in> afterRel gs"
      using g by (simp add: afterRel_iff)
    from "1.IH" [OF False g v "1.prems"(2) d _ a] show ?thesis by simp
  qed
next
  case (2 gs stack)
  then show ?case by simp
next
  case (3 gs stack a rest)
  show ?case
  proof (cases "visitGroup gs stack a")
    case (Inl e)
    with "3.prems"(1) have e: "visitGroup gs stack a = Inl (CyclicInteractionError cyc)" by simp
    from "3.prems"(5) have "(last stack, a) \<in> afterRel gs" by simp
    from linked_snoc [OF "3.prems"(2) "3.prems"(4) this]
    have "linked (afterRel gs) (stack @ [a])" .
    from "3.IH"(1) [OF e this "3.prems"(3)] show ?thesis .
  next
    case (Inr found)
    with "3.prems"(1) have r: "visitAfterGroups gs stack rest = Inl (CyclicInteractionError cyc)"
      by (auto split: sum.splits)
    from "3.IH"(2) [OF Inr r "3.prems"(2,3,4)] "3.prems"(5) show ?thesis by simp
  qed
qed

lemma closures_Inr:
  "closures gs hs = Inr m \<Longrightarrow> g \<in> set hs \<Longrightarrow> \<exists>found. visitGroup gs [] (groupName g) = Inr found"
  by (induction hs arbitrary: m) (auto split: sum.splits)

lemma closures_Inl:
  "closures gs hs = Inl e \<Longrightarrow> \<exists>g \<in> set hs. visitGroup gs [] (groupName g) = Inl e"
  by (induction hs) (auto split: sum.splits)

lemma visit_error_kinds:
  "visitGroup gs stack n = Inl e \<Longrightarrow>
     (\<exists>cyc. e = CyclicInteractionError cyc) \<or>
     (\<exists>m. e = UndefinedGroupError m \<and> findGroup gs m = None)"
  "visitAfterGroups gs stack as = Inl e \<Longrightarrow>
     (\<exists>cyc. e = CyclicInteractionError cyc) \<or>
     (\<exists>m. e = UndefinedGroupError m \<and> findGroup gs m = None)"
proof (induction gs stack n and gs stack as rule: visitGroup_visitAfterGroups.induct)
  case (1 gs stack name)
  show ?case
  proof (cases "name \<in> set stack")
    case True
    with "1.prems" show ?thesis by auto
  next
    case False
    show ?thesis
    proof (cases "findGroup gs name")
      case None
      with False "1.prems" show ?thesis by auto
    next
      case (Some g)
      with False "1.prems"
      have "visitAfterGroups gs (stack @ [name]) (afterGroups g) = Inl e" by simp
      from "1.IH" [OF False Some this] show ?thesis .
    qed
  qed
next
  case (2 gs stack)
  then show ?case by simp
next
  case (3 gs stack a rest)
  show ?case
  proof (cases "visitGroup gs stack a")
    case (Inl e')
    with "3.prems" have "e' = e" by simp
    with Inl "3.IH"(1) show ?thesis by simp
  next
    case (Inr found)
    with "3.prems" have "visitAfterGroups gs stack rest = Inl e"
      by (auto split: sum.splits)
    from "3.IH"(2) [OF Inr this] show ?thesis .
  qed
qed

text \<open>
  C8 (as amended). When the after-relation of the groups has a cycle, computing the
  transitive after-groups throws. When every after-group named is defined it throws
  \<open>CyclicInteractionError\<close>, and its payload is a cycle of the after-relation: a
  non-empty sequence of distinct group names, each loading after the next and the last
  after the first, every step annotated \<open>LoadAfter\<close>. When some after-group is not
  defined it throws that error or \<open>UndefinedGroupError\<close> for a group that is not
  defined, whichever the traversal meets first. For the groups a after c, b after a,
  c after b the cycle has length 3 and starts at the group the traversal starts from.
\<close>

theorem cyclic_groups_throw:
  assumes "(x, x) \<in> (afterRel gs)\<^sup>+"
  shows "((\<exists>cyc. GetTransitiveAfterGroups gs = Inl (CyclicInteractionError cyc) \<and>
                isCycle (afterRel gs) cyc) \<or>
          (\<exists>n. GetTransitiveAfterGroups gs = Inl (UndefinedGroupError n) \<and>
               findGroup gs n = None \<and> \<not> allDefined gs)) \<and>
         (allDefined gs \<longrightarrow>
            (\<exists>cyc. GetTransitiveAfterGroups gs = Inl (CyclicInteractionError cyc) \<and>
                   isCycle (afterRel gs) cyc)) \<and>
         GetTransitiveAfterGroups [groupA, groupB, groupC] =
           Inl (CyclicInteractionError
                  [loadAfterStep ''a'', loadAfterStep ''c'', loadAfterStep ''b'']) \<and>
         GetTransitiveAfterGroups [groupB, groupC, groupA] =
           Inl (CyclicInteractionError
                  [loadAfterStep ''b'', loadAfterStep ''a'', loadAfterStep ''c'']) \<and>
         GetTransitiveAfterGroups [groupC, groupA, groupB] =
           Inl (CyclicInteractionError
                  [loadAfterStep ''c'', loadAfterStep ''b'', loadAfterStep ''a''])"
proof -
  from assms obtain y where "(x, y) \<in> afterRel gs" by (auto dest: tranclD)
  then obtain gx where "findGroup gs x = Some gx" by (auto simp add: afterRel_iff)
  from findGroup_member [OF this] have gx: "gx \<in> set gs" and nx: "groupName gx = x" by simp_all
  have notInr: "GetTransitiveAfterGroups gs \<noteq> Inr m" for m
  proof
    assume r: "GetTransitiveAfterGroups gs = Inr m"
    from closures_Inr [OF r [unfolded GetTransitiveAfterGroups_def] gx] nx
    obtain found where "visitGroup gs [] x = Inr found" by auto
    from visit_complete(1) [OF this] assms show False by blast
  qed
  then obtain e where e: "GetTransitiveAfterGroups gs = Inl e"
    by (cases "GetTransitiveAfterGroups gs") auto
  from closures_Inl [OF e [unfolded GetTransitiveAfterGroups_def]]
  obtain g where g: "g \<in> set gs" and v: "visitGroup gs [] (groupName g) = Inl e" by blast
  have cyc: "isCycle (afterRel gs) cyc" if "e = CyclicInteractionError cyc" for cyc
    using visit_cycle(1) [OF v [unfolded that]] by simp
  have def: "\<exists>cyc. e = CyclicInteractionError cyc" if "allDefined gs"
    using visit_errors(1) [OF v that findGroup_own [OF g]] .
  have undef: "\<not> allDefined gs" if "e = UndefinedGroupError n" for n
    using def that by auto
  from visit_error_kinds(1) [OF v] e cyc undef
  have 1: "(\<exists>cyc. GetTransitiveAfterGroups gs = Inl (CyclicInteractionError cyc) \<and>
                isCycle (afterRel gs) cyc) \<or>
          (\<exists>n. GetTransitiveAfterGroups gs = Inl (UndefinedGroupError n) \<and>
               findGroup gs n = None \<and> \<not> allDefined gs)"
    by auto
  from def e cyc
  have 2: "allDefined gs \<longrightarrow>
            (\<exists>cyc. GetTransitiveAfterGroups gs = Inl (CyclicInteractionError cyc) \<and>
                   isCycle (afterRel gs) cyc)"
    by auto
  have 3: "GetTransitiveAfterGroups [groupA, groupB, groupC] =
           Inl (CyclicInteractionError
                  [loadAfterStep ''a'', loadAfterStep ''c'', loadAfterStep ''b''])"
    by (simp add: GetTransitiveAfterGroups_def groupA_def groupB_def groupC_def findGroup_def
        cycleFrom_def loadAfterStep_def)
  have 4: "GetTransitiveAfterGroups [groupB, groupC, groupA] =
           Inl (CyclicInteractionError
                  [loadAfterStep ''b'', loadAfterStep ''a'', loadAfterStep ''c''])"
    by (simp add: GetTransitiveAfterGroups_def groupA_def groupB_def groupC_def findGroup_def
        cycleFrom_def loadAfterStep_def)
  have 5: "GetTransitiveAfterGroups [groupC, groupA, groupB] =
           Inl (CyclicInteractionError
                  [loadAfterStep ''c'', loadAfterStep ''b'', loadAfterStep ''a''])"
    by (simp add: GetTransitiveAfterGroups_def groupA_def groupB_def groupC_def findGroup_def
        cycleFrom_def loadAfterStep_def)
  from 1 2 3 4 5 show ?thesis by blast
qed

theorem cyclic_groups_throw_witness:
  "allDefined [groupA, groupB, groupC] \<and>
   (''a'', ''a'') \<in> (afterRel [groupA, groupB, groupC])\<^sup>+ \<and>
   (\<exists>cyc. GetTransitiveAfterGroups [groupA, groupB, groupC] = Inl (CyclicInteractionError cyc) \<and>
          isCycle (afterRel [groupA, groupB, groupC]) cyc \<and> length cyc = 3)"
proof -
  have d: "allDefined [groupA, groupB, groupC]"
    by (simp add: allDefined_def groupA_def groupB_def groupC_def findGroup_def)
  have "(''a'', ''c'') \<in> afterRel [groupA, groupB, groupC]"
    "(''c'', ''b'') \<in> afterRel [groupA, groupB, groupC]"
    "(''b'', ''a'') \<in> afterRel [groupA, groupB, groupC]"
    by (simp_all add: afterRel_def loadsAfter_def groupA_def groupB_def groupC_def findGroup_def)
  then have c: "(''a'', ''a'') \<in> (afterRel [groupA, groupB, groupC])\<^sup>+"
    by (meson trancl.intros)
  from cyclic_groups_throw [OF c]
  show ?thesis using d c by auto
qed

text \<open>
  C8 as stated, for every set of groups with a cycle, fails. For the groups x after y
  and a after a, with y not defined, the after-relation has the cycle a after a and
  the traversal, which starts from x, throws \<open>UndefinedGroupError\<close> for y. Started from
  a it throws \<open>CyclicInteractionError\<close>.
\<close>

theorem cyclic_groups_undefined_counterexample:
  "(''a'', ''a'') \<in> (afterRel [groupX, groupSelf])\<^sup>+ \<and>
   \<not> allDefined [groupX, groupSelf] \<and>
   GetTransitiveAfterGroups [groupX, groupSelf] = Inl (UndefinedGroupError ''y'') \<and>
   GetTransitiveAfterGroups [groupX, groupSelf] \<noteq>
     Inl (CyclicInteractionError [loadAfterStep ''a'']) \<and>
   GetTransitiveAfterGroups [groupSelf, groupX] =
     Inl (CyclicInteractionError [loadAfterStep ''a''])"
proof -
  have "(''a'', ''a'') \<in> afterRel [groupX, groupSelf]"
    by (simp add: afterRel_def loadsAfter_def groupX_def groupSelf_def findGroup_def)
  then have c: "(''a'', ''a'') \<in> (afterRel [groupX, groupSelf])\<^sup>+" by (rule r_into_trancl)
  have d: "\<not> allDefined [groupX, groupSelf]"
    by (simp add: allDefined_def groupX_def groupSelf_def findGroup_def)
  have u: "GetTransitiveAfterGroups [groupX, groupSelf] = Inl (UndefinedGroupError ''y'')"
    by (simp add: GetTransitiveAfterGroups_def groupX_def groupSelf_def findGroup_def)
  have s: "GetTransitiveAfterGroups [groupSelf, groupX] =
     Inl (CyclicInteractionError [loadAfterStep ''a''])"
    by (simp add: GetTransitiveAfterGroups_def groupX_def groupSelf_def findGroup_def
        cycleFrom_def loadAfterStep_def)
  from c d u s show ?thesis by simp
qed


end
